theory Spec2Isabelle
  imports Main
begin

section \<open>Strings\<close>

text \<open>
  JavaScript strings are modelled as \<^typ>\<open>string\<close> (lists of characters); a character
  stands for a code unit below 256, the Latin-1 part of Unicode. The functions other
  than the case conversions inspect only the ASCII characters they name, so they read
  the same for any alphabet.
\<close>

definition startsWith :: "string \<Rightarrow> string \<Rightarrow> bool" where
  \<comment> \<open>\<^verbatim>\<open>s.startsWith(p)\<close>\<close>
  "startsWith s p = (take (length p) s = p)"

definition endsWith :: "string \<Rightarrow> string \<Rightarrow> bool" where
  \<comment> \<open>\<^verbatim>\<open>s.endsWith(p)\<close>\<close>
  "endsWith s p = (length p \<le> length s \<and> drop (length s - length p) s = p)"

fun includesStr :: "string \<Rightarrow> string \<Rightarrow> bool" where
  \<comment> \<open>\<^verbatim>\<open>s.includes(p)\<close>: \<open>p\<close> occurs in \<open>s\<close> as a contiguous substring\<close>
  "includesStr [] p = (p = [])"
| "includesStr (c # cs) p = (startsWith (c # cs) p \<or> includesStr cs p)"

section \<open>Normalization of paths and URLs\<close>

subsection \<open>BackendAnalyzer.normalizePath\<close>

fun collapseSlashes :: "string \<Rightarrow> string" where
  \<comment> \<open>\<^verbatim>\<open>path.replace(/\/+/g, '/')\<close>: every maximal run of slashes becomes one slash\<close>
  "collapseSlashes [] = []"
| "collapseSlashes [c] = [c]"
| "collapseSlashes (a # b # cs) =
     (if a = CHR ''/'' \<and> b = CHR ''/'' then collapseSlashes (b # cs)
      else a # collapseSlashes (b # cs))"

definition ensureLeadingSlash :: "string \<Rightarrow> string" where
  \<comment> \<open>\<^verbatim>\<open>if (!s.startsWith('/')) s = '/' + s\<close>\<close>
  "ensureLeadingSlash s = (if startsWith s ''/'' then s else ''/'' @ s)"

definition normalizePath :: "string \<Rightarrow> string" where
  "normalizePath path =
     (let normalized = collapseSlashes path;
          normalized = ensureLeadingSlash normalized
      in if length normalized > 1 \<and> endsWith normalized ''/''
         then butlast normalized
         else normalized)"

subsection \<open>FrontendAnalyzer.cleanEndpoint\<close>

definition stripPrefix :: "string \<Rightarrow> string \<Rightarrow> string option" where
  "stripPrefix p s = (if startsWith s p then Some (drop (length p) s) else None)"

definition notSlash :: "char \<Rightarrow> bool" where
  "notSlash c = (c \<noteq> CHR ''/'')"

definition stripHostAfter :: "string \<Rightarrow> string \<Rightarrow> string" where
  \<comment> \<open>the \<^verbatim>\<open>[^\/]+\<close> part: at least one character other than a slash must follow the scheme\<close>
  "stripHostAfter s rest =
     (if takeWhile notSlash rest = [] then s else dropWhile notSlash rest)"

definition stripProtocolHost :: "string \<Rightarrow> string" where
  \<comment> \<open>\<^verbatim>\<open>endpoint.replace(/^https?:\/\/[^\/]+/, '')\<close>\<close>
  "stripProtocolHost s =
     (case stripPrefix ''https://'' s of
        Some rest \<Rightarrow> stripHostAfter s rest
      | None \<Rightarrow>
          (case stripPrefix ''http://'' s of
             Some rest \<Rightarrow> stripHostAfter s rest
           | None \<Rightarrow> s))"

definition notQuestion :: "char \<Rightarrow> bool" where
  "notQuestion c = (c \<noteq> CHR ''?'')"

definition dropQuery :: "string \<Rightarrow> string" where
  \<comment> \<open>\<^verbatim>\<open>endpoint.split('?')[0]\<close>\<close>
  "dropQuery s = takeWhile notQuestion s"

definition notClose :: "char \<Rightarrow> bool" where
  "notClose c = (c \<noteq> CHR ''}'')"

definition paramToken :: string where
  "paramToken = '':param''"

function replaceTemplates :: "string \<Rightarrow> string" where
  \<comment> \<open>\<^verbatim>\<open>endpoint.replace(/\$\{[^}]+\}/g, ':param')\<close>: leftmost matches, left to right,
      the scan resuming after each match\<close>
  "replaceTemplates [] = []"
| "replaceTemplates (c # cs) =
     (if c = CHR ''$'' \<and> startsWith cs ''{''
         \<and> takeWhile notClose (tl cs) \<noteq> [] \<and> dropWhile notClose (tl cs) \<noteq> []
      then paramToken @ replaceTemplates (tl (dropWhile notClose (tl cs)))
      else c # replaceTemplates cs)"
  by pat_completeness auto
termination
proof (relation "measure length")
  show "wf (measure length)" by simp
next
  fix c :: char and cs :: string
  have "length (tl (dropWhile notClose (tl cs))) \<le> length cs"
    using length_dropWhile_le [of notClose "tl cs"] by simp
  then show "(tl (dropWhile notClose (tl cs)), c # cs) \<in> measure length" by simp
next
  fix c :: char and cs :: string
  show "(cs, c # cs) \<in> measure length" by simp
qed

definition cleanEndpoint :: "string \<Rightarrow> string" where
  "cleanEndpoint endpoint =
     (if endpoint = [] then []
      else ensureLeadingSlash (replaceTemplates (dropQuery (stripProtocolHost endpoint))))"


section \<open>Syntax-tree nodes and extracted values (astUtils)\<close>

text \<open>The exception the modelled code can raise: a call of a value that is no function,
  or a property read on \<^verbatim>\<open>null\<close>.\<close>

datatype error = TypeError

text \<open>
  The part of a Babel syntax tree that the extractors read. \<open>TemplateLiteral qs n\<close>
  carries the cooked texts of its quasis and the number of its expressions;
  \<open>MemberExpression obj prop\<close> carries \<^verbatim>\<open>object.name\<close> and \<^verbatim>\<open>property.name\<close>
  (absent when the sub-node is no identifier); an \<open>ObjectExpression\<close> lists its
  \<^verbatim>\<open>ObjectProperty\<close> members as pairs of \<^verbatim>\<open>key.name || key.value\<close> and the value node
  (spread elements and methods, which \<^verbatim>\<open>extractObjectStructure\<close> skips, are left out, and
  so is a property named \<^verbatim>\<open>__proto__\<close>, which would set the prototype of the structure);
  an \<open>ArrayExpression\<close> lists its elements, \<open>None\<close> for a hole.
\<close>

datatype node =
    StringLiteral string
  | TemplateLiteral "string list" nat
  | NumericLiteral int
  | BooleanLiteral bool
  | Identifier string
  | MemberExpression "string option" "string option"
  | CallExpression node "node list"
  | ObjectExpression "(string \<times> node) list"
  | ArrayExpression "node option list"
  | OtherNode string

text \<open>The values \<^verbatim>\<open>extractObjectStructure\<close> builds: strings, numbers, booleans,
  \<^verbatim>\<open>null\<close>, plain objects (own properties in enumeration order) and arrays.\<close>

datatype jsval =
    JString string
  | JNumber int
  | JBoolean bool
  | JNull
  | JObject "(string \<times> jsval) list"
  | JArray "jsval list"

fun truthy :: "jsval \<Rightarrow> bool" where
  "truthy (JString s) = (s \<noteq> [])"
| "truthy (JNumber n) = (n \<noteq> 0)"
| "truthy (JBoolean b) = b"
| "truthy JNull = False"
| "truthy (JObject kvs) = True"
| "truthy (JArray xs) = True"

fun mapSet :: "'k \<Rightarrow> 'v \<Rightarrow> ('k \<times> 'v) list \<Rightarrow> ('k \<times> 'v) list" where
  \<comment> \<open>\<^verbatim>\<open>m.set(k, v)\<close> on a Map, kept as an association list in insertion order: an
      existing key keeps its place and takes the new value\<close>
  "mapSet k v [] = [(k, v)]"
| "mapSet k v (p # ps) = (if fst p = k then (k, v) # ps else p # mapSet k v ps)"

definition mapGet :: "('k \<times> 'v) list \<Rightarrow> 'k \<Rightarrow> 'v option" where
  \<comment> \<open>\<^verbatim>\<open>m.get(k)\<close>, \<open>None\<close> for \<^verbatim>\<open>undefined\<close>\<close>
  "mapGet m k = map_of m k"

text \<open>
  A plain object is the list of its own properties in the order JavaScript enumerates
  them: the array indices (canonical decimal numerals below \<open>2^32 - 1\<close>) in ascending
  order first, then the other keys in the order of their creation.
\<close>

definition isDigit :: "char \<Rightarrow> bool" where
  "isDigit c = (48 \<le> (of_char c :: nat) \<and> (of_char c :: nat) \<le> 57)"

fun readNat :: "nat \<Rightarrow> string \<Rightarrow> nat" where
  \<comment> \<open>the value of a string of digits, after the digits read so far\<close>
  "readNat acc [] = acc"
| "readNat acc (c # cs) = readNat (10 * acc + (of_char c - 48)) cs"

definition arrayIndex :: "string \<Rightarrow> nat option" where
  "arrayIndex s =
     (if s \<noteq> [] \<and> list_all isDigit s \<and> (s = ''0'' \<or> hd s \<noteq> CHR ''0'')
         \<and> readNat 0 s < 4294967295
      then Some (readNat 0 s) else None)"

fun objectSet :: "string \<Rightarrow> 'v \<Rightarrow> (string \<times> 'v) list \<Rightarrow> (string \<times> 'v) list" where
  \<comment> \<open>\<^verbatim>\<open>o[k] = v\<close>: an existing key keeps its place; a new array index goes before the
      first larger index or other key, any other new key goes to the end\<close>
  "objectSet k v [] = [(k, v)]"
| "objectSet k v (p # ps) =
     (if fst p = k then (k, v) # ps
      else
        (case arrayIndex k of
           None \<Rightarrow> p # objectSet k v ps
         | Some n \<Rightarrow>
             (case arrayIndex (fst p) of
                None \<Rightarrow> (k, v) # p # ps
              | Some m \<Rightarrow> (if n < m then (k, v) # p # ps else p # objectSet k v ps))))"

fun typeName :: "node \<Rightarrow> string" where
  "typeName (StringLiteral s) = ''StringLiteral''"
| "typeName (TemplateLiteral qs n) = ''TemplateLiteral''"
| "typeName (NumericLiteral n) = ''NumericLiteral''"
| "typeName (BooleanLiteral b) = ''BooleanLiteral''"
| "typeName (Identifier x) = ''Identifier''"
| "typeName (MemberExpression a b) = ''MemberExpression''"
| "typeName (CallExpression f as) = ''CallExpression''"
| "typeName (ObjectExpression ps) = ''ObjectExpression''"
| "typeName (ArrayExpression es) = ''ArrayExpression''"
| "typeName (OtherNode t) = t"

fun joinWith :: "string \<Rightarrow> string list \<Rightarrow> string" where
  \<comment> \<open>\<^verbatim>\<open>xs.join(sep)\<close>\<close>
  "joinWith sep [] = []"
| "joinWith sep [x] = x"
| "joinWith sep (x # y # ys) = x @ sep @ joinWith sep (y # ys)"

fun extractStringValue :: "node option \<Rightarrow> string option" where
  "extractStringValue None = None"
| "extractStringValue (Some (StringLiteral v)) = Some v"
| "extractStringValue (Some (TemplateLiteral quasis n)) =
     (if n = 0 then
        (case quasis of
           [] \<Rightarrow> None
         | q # _ \<Rightarrow> (if q = [] then None else Some q))
      else Some (joinWith ''${...}'' quasis))"
| "extractStringValue (Some _) = None"

fun extractObjectStructure :: "node \<Rightarrow> (string \<times> jsval) list"
  and extractArrayStructure :: "node \<Rightarrow> jsval list"
  and propertyValue :: "node \<Rightarrow> jsval"
  and elementValue :: "node option \<Rightarrow> jsval"
  and objectProperties :: "(string \<times> node) list \<Rightarrow> (string \<times> jsval) list \<Rightarrow> (string \<times> jsval) list"
  and arrayElements :: "node option list \<Rightarrow> jsval list"
where
  "extractObjectStructure (ObjectExpression props) = objectProperties props []"
| "extractObjectStructure _ = []"
| "extractArrayStructure (ArrayExpression elements) = arrayElements elements"
| "extractArrayStructure _ = []"
| "objectProperties [] structure = structure"
| "objectProperties ((keyName, v) # props) structure =
     objectProperties props
       (if keyName = [] then structure else objectSet keyName (propertyValue v) structure)"
| "arrayElements [] = []"
| "arrayElements (e # es) = elementValue e # arrayElements es"
| "propertyValue (ObjectExpression props) = JObject (objectProperties props [])"
| "propertyValue (ArrayExpression elements) = JArray (arrayElements elements)"
| "propertyValue (StringLiteral v) = JString v"
| "propertyValue (NumericLiteral v) = JNumber v"
| "propertyValue (BooleanLiteral v) = JBoolean v"
| "propertyValue (Identifier name) = JString (''<'' @ name @ ''>'')"
| "propertyValue n = JString (''<'' @ typeName n @ ''>'')"
| "elementValue None = JNull"
| "elementValue (Some (StringLiteral v)) = JString v"
| "elementValue (Some (NumericLiteral v)) = JNumber v"
| "elementValue (Some (ObjectExpression props)) = JObject (objectProperties props [])"
| "elementValue (Some (ArrayExpression elements)) = JArray (arrayElements elements)"
| "elementValue (Some n) = JString (''<'' @ typeName n @ ''>'')"


section \<open>Case conversion and splitting\<close>

definition toLowerChar :: "char \<Rightarrow> char" where
  \<comment> \<open>the capital letters of the alphabet: A to Z, and U+00C0 to U+00DE without the
      multiplication sign U+00D7; other characters are left as they are\<close>
  "toLowerChar c =
     (let n = (of_char c :: nat)
      in if (65 \<le> n \<and> n \<le> 90) \<or> (192 \<le> n \<and> n \<le> 222 \<and> n \<noteq> 215) then char_of (n + 32)
         else c)"

definition toUpperChar :: "char \<Rightarrow> string" where
  \<comment> \<open>the small letters a to z, and U+00E0 to U+00FE without the division sign U+00F7;
      the sharp s U+00DF becomes \<open>SS\<close>. The capitals of U+00B5 and U+00FF are U+039C
      and U+0178, outside the alphabet: here these two characters are left as they are\<close>
  "toUpperChar c =
     (let n = (of_char c :: nat)
      in if (97 \<le> n \<and> n \<le> 122) \<or> (224 \<le> n \<and> n \<le> 254 \<and> n \<noteq> 247) then [char_of (n - 32)]
         else if n = 223 then ''SS''
         else [c])"

definition toLowerCase :: "string \<Rightarrow> string" where
  "toLowerCase s = map toLowerChar s"

definition toUpperCase :: "string \<Rightarrow> string" where
  "toUpperCase s = concat (map toUpperChar s)"

fun splitOn :: "char \<Rightarrow> string \<Rightarrow> string list" where
  \<comment> \<open>\<^verbatim>\<open>s.split(c)\<close> for a one-character separator; the empty string gives one empty piece\<close>
  "splitOn sep [] = [[]]"
| "splitOn sep (c # cs) =
     (if c = sep then [] # splitOn sep cs
      else (case splitOn sep cs of
              [] \<Rightarrow> [[c]]
            | p # ps \<Rightarrow> (c # p) # ps))"

definition nameOr :: "string option \<Rightarrow> string" where
  \<comment> \<open>an absent name inside a template string prints as \<^verbatim>\<open>undefined\<close>\<close>
  "nameOr n = (case n of None \<Rightarrow> ''undefined'' | Some x \<Rightarrow> x)"

definition nthOpt :: "'a list \<Rightarrow> nat \<Rightarrow> 'a option" where
  \<comment> \<open>\<^verbatim>\<open>xs[i]\<close>, \<open>None\<close> for \<^verbatim>\<open>undefined\<close>\<close>
  "nthOpt xs i = (if i < length xs then Some (xs ! i) else None)"

section \<open>FrontendAnalyzer: call sites\<close>

datatype call_type = Fetch | Axios | Api | Request | Service

record api_call =
  ac_type :: call_type
  ac_method :: "string option"
  ac_urlArg :: "node option"
  ac_optionsArg :: "node option"
  ac_dataArg :: "node option"
  ac_configArg :: "node option"
  ac_serviceName :: "string option"
  ac_args :: "node list"
  ac_file :: string
  ac_line :: nat

definition httpVerbs :: "string list" where
  "httpVerbs = [''get'', ''post'', ''put'', ''patch'', ''delete'', ''head'', ''options'']"

definition blankCall :: "call_type \<Rightarrow> api_call" where
  "blankCall t = \<lparr> ac_type = t, ac_method = None, ac_urlArg = None, ac_optionsArg = None,
     ac_dataArg = None, ac_configArg = None, ac_serviceName = None, ac_args = [],
     ac_file = [], ac_line = 0 \<rparr>"

definition serviceLike :: "string \<Rightarrow> bool" where
  \<comment> \<open>\<^verbatim>\<open>/api|service|client/i.test(name)\<close>\<close>
  "serviceLike name =
     (let l = toLowerCase name
      in includesStr l ''api'' \<or> includesStr l ''service'' \<or> includesStr l ''client'')"

fun detectAPICall :: "node \<Rightarrow> api_call option" where
  "detectAPICall (CallExpression callee arguments) =
     (if callee = Identifier ''fetch'' then
        Some ((blankCall Fetch) \<lparr> ac_urlArg := nthOpt arguments 0,
                                    ac_optionsArg := nthOpt arguments 1 \<rparr>)
      else
        (case callee of
           MemberExpression obj prop \<Rightarrow>
             (if obj = Some ''axios'' \<and> (\<exists>v \<in> set httpVerbs. prop = Some v) then
                Some ((blankCall Axios) \<lparr> ac_method := Some (toUpperCase (the prop)),
                        ac_urlArg := nthOpt arguments 0, ac_dataArg := nthOpt arguments 1,
                        ac_configArg := nthOpt arguments 2 \<rparr>)
              else if (obj = Some ''api'' \<or> obj = Some ''API'' \<or> obj = Some ''client''
                       \<or> obj = Some ''httpClient'') \<and> (\<exists>v \<in> set httpVerbs. prop = Some v) then
                Some ((blankCall Api) \<lparr> ac_method := Some (toUpperCase (the prop)),
                        ac_urlArg := nthOpt arguments 0, ac_dataArg := nthOpt arguments 1,
                        ac_configArg := nthOpt arguments 2 \<rparr>)
              else if prop = Some ''request'' then
                Some ((blankCall Request) \<lparr> ac_configArg := nthOpt arguments 0 \<rparr>)
              else
                (case obj of
                   Some name \<Rightarrow>
                     (if name \<noteq> [] \<and> serviceLike name then
                        Some ((blankCall Service) \<lparr> ac_serviceName := Some name,
                                ac_method := prop, ac_args := arguments \<rparr>)
                      else None)
                 | None \<Rightarrow> None))
         | Identifier name \<Rightarrow>
             (if name = ''request'' then
                Some ((blankCall Request) \<lparr> ac_configArg := nthOpt arguments 0 \<rparr>)
              else None)
         | _ \<Rightarrow> None))"
| "detectAPICall _ = None"

definition authHeaders :: "string list" where
  "authHeaders = [''authorization'', ''Authorization'', ''auth'', ''token'', ''x-auth-token'', ''bearer'']"

fun checkAuthInHeaders :: "jsval \<Rightarrow> error + bool" where
  \<comment> \<open>inside the \<^verbatim>\<open>typeof headers === 'object'\<close> branch the string test is never true;
      an array has none of the header names as own property. An object with an own
      property \<^verbatim>\<open>hasOwnProperty\<close> hides the inherited method by a value that is no
      function, and the first \<^verbatim>\<open>headers.hasOwnProperty(header)\<close> throws\<close>
  "checkAuthInHeaders (JObject kvs) =
     (if ''hasOwnProperty'' \<in> set (map fst kvs) then Inl TypeError
      else Inr (\<exists>h \<in> set authHeaders. h \<in> set (map fst kvs)))"
| "checkAuthInHeaders _ = Inr False"

definition methodMapping :: "(string \<times> string) list" where
  "methodMapping =
     [(''get'', ''GET''), (''fetch'', ''GET''), (''find'', ''GET''), (''list'', ''GET''),
      (''create'', ''POST''), (''add'', ''POST''), (''save'', ''POST''),
      (''update'', ''PUT''), (''edit'', ''PUT''), (''patch'', ''PATCH''),
      (''delete'', ''DELETE''), (''remove'', ''DELETE''), (''destroy'', ''DELETE'')]"

definition inferMethodFromServiceCall :: "string \<Rightarrow> string" where
  \<comment> \<open>the second alternative returns the key found, as the source does; names that hit an
      inherited property of the mapping object (\<^verbatim>\<open>constructor\<close>) are outside the model\<close>
  "inferMethodFromServiceCall methodName =
     (let lowerMethod = toLowerCase methodName
      in case map_of methodMapping lowerMethod of
           Some m \<Rightarrow> m
         | None \<Rightarrow>
             (case find (\<lambda>key. includesStr lowerMethod key) (map fst methodMapping) of
                Some key \<Rightarrow> key
              | None \<Rightarrow> ''POST''))"

definition notSlashQuestion :: "char \<Rightarrow> bool" where
  "notSlashQuestion c = (c \<noteq> CHR ''/'' \<and> c \<noteq> CHR ''?'')"

function extractURLParams :: "string \<Rightarrow> string list" where
  \<comment> \<open>the matches of \<^verbatim>\<open>/:([^/?]+)/g\<close>, each without its colon\<close>
  "extractURLParams [] = []"
| "extractURLParams (c # cs) =
     (if c = CHR '':'' \<and> takeWhile notSlashQuestion cs \<noteq> []
      then takeWhile notSlashQuestion cs # extractURLParams (dropWhile notSlashQuestion cs)
      else extractURLParams cs)"
  by pat_completeness auto
termination
proof (relation "measure length")
  show "wf (measure length)" by simp
next
  fix c :: char and cs :: string
  have "length (dropWhile notSlashQuestion cs) \<le> length cs"
    by (rule length_dropWhile_le)
  then show "(dropWhile notSlashQuestion cs, c # cs) \<in> measure length" by simp
next
  fix c :: char and cs :: string
  show "(cs, c # cs) \<in> measure length" by simp
qed

definition notEquals :: "char \<Rightarrow> bool" where
  "notEquals c = (c \<noteq> CHR ''='')"

definition extractQueryParams :: "string \<Rightarrow> string list" where
  "extractQueryParams url =
     (if CHR ''?'' \<in> set url then
        (let queryString = tl (dropWhile notQuestion url);
             params = splitOn CHR ''&'' queryString
         in filter (\<lambda>key. key \<noteq> []) (map (takeWhile notEquals) params))
      else [])"

record call_site =
  cs_method :: string
  cs_endpoint :: string
  cs_originalUrl :: "string option"
  cs_file :: string
  cs_line :: nat
  cs_type :: call_type
  cs_data :: jsval
  cs_hasAuth :: bool
  cs_params :: "string list"
  cs_queryParams :: "string list"

definition finishCall :: "api_call \<Rightarrow> string \<Rightarrow> string option \<Rightarrow> jsval \<Rightarrow> bool \<Rightarrow> call_site option" where
  \<comment> \<open>the tail of \<^verbatim>\<open>normalizeAPICall\<close>, from \<^verbatim>\<open>if (!endpoint) return null\<close> on\<close>
  "finishCall call method endpoint data hasAuth =
     (case endpoint of
        None \<Rightarrow> None
      | Some e \<Rightarrow>
          (if e = [] then None
           else
             (let endpoint' = cleanEndpoint e
              in Some \<lparr> cs_method = method, cs_endpoint = endpoint',
                        cs_originalUrl = extractStringValue (ac_urlArg call),
                        cs_file = ac_file call, cs_line = ac_line call, cs_type = ac_type call,
                        cs_data = data, cs_hasAuth = hasAuth,
                        cs_params = extractURLParams endpoint',
                        cs_queryParams = extractQueryParams endpoint' \<rparr>)))"

definition defaultMethod :: "api_call \<Rightarrow> string" where
  \<comment> \<open>\<^verbatim>\<open>call.method || 'GET'\<close>\<close>
  "defaultMethod call =
     (case ac_method call of
        None \<Rightarrow> ''GET''
      | Some m \<Rightarrow> (if m = [] then ''GET'' else m))"

definition fieldTruthy :: "(string \<times> jsval) list \<Rightarrow> string \<Rightarrow> jsval option" where
  \<comment> \<open>the value of \<^verbatim>\<open>o.name\<close> when it is truthy\<close>
  "fieldTruthy obj name =
     (case map_of obj name of
        Some v \<Rightarrow> (if truthy v then Some v else None)
      | None \<Rightarrow> None)"

definition headersAuth :: "(string \<times> jsval) list \<Rightarrow> error + bool" where
  \<comment> \<open>\<^verbatim>\<open>if (o.headers) hasAuth = this.checkAuthInHeaders(o.headers)\<close>, from \<^verbatim>\<open>hasAuth = false\<close>\<close>
  "headersAuth obj =
     (case fieldTruthy obj ''headers'' of
        Some h \<Rightarrow> checkAuthInHeaders h
      | None \<Rightarrow> Inr False)"

definition normalizeAPICall :: "api_call \<Rightarrow> call_site option" where
  \<comment> \<open>\<open>None\<close> is the source's \<^verbatim>\<open>null\<close>, returned also from its \<^verbatim>\<open>catch\<close> block. The
      exceptions the body can raise are \<^verbatim>\<open>undefined.toLowerCase()\<close> for a service call
      whose method name is absent, and the one of \<^verbatim>\<open>checkAuthInHeaders\<close>\<close>
  "normalizeAPICall call =
     (case ac_type call of
        Fetch \<Rightarrow>
          (let endpoint = extractStringValue (ac_urlArg call);
               options = (case ac_optionsArg call of
                            None \<Rightarrow> []
                          | Some n \<Rightarrow> extractObjectStructure n);
               method = (case fieldTruthy options ''method'' of
                           Some (JString m) \<Rightarrow> toUpperCase m
                         | Some _ \<Rightarrow> ''GET''
                         | None \<Rightarrow> defaultMethod call);
               data = (case fieldTruthy options ''body'' of
                         Some b \<Rightarrow> b
                       | None \<Rightarrow> JObject [])
           in case headersAuth options of
                Inl e \<Rightarrow> None
              | Inr hasAuth \<Rightarrow> finishCall call method endpoint data hasAuth)
      | Request \<Rightarrow> finishCall call (defaultMethod call) None (JObject []) False
      | Service \<Rightarrow>
          (case ac_method call of
             None \<Rightarrow> None
           | Some m \<Rightarrow>
               (let endpoint = ''/'' @ nameOr (ac_serviceName call) @ ''/'' @ m;
                    method = inferMethodFromServiceCall m;
                    data = (case ac_args call of
                              [] \<Rightarrow> JObject []
                            | a # _ \<Rightarrow> JObject (extractObjectStructure a))
                in finishCall call method (Some endpoint) data False))
      | _ \<Rightarrow>
          (let endpoint = extractStringValue (ac_urlArg call);
               data = (case ac_dataArg call of
                         None \<Rightarrow> JObject []
                       | Some n \<Rightarrow> JObject (extractObjectStructure n))
           in case (case ac_configArg call of
                      None \<Rightarrow> Inr False
                    | Some n \<Rightarrow> headersAuth (extractObjectStructure n)) of
                Inl e \<Rightarrow> None
              | Inr hasAuth \<Rightarrow> finishCall call (defaultMethod call) endpoint data hasAuth))"

definition callKey :: "string \<Rightarrow> string \<Rightarrow> string" where
  \<comment> \<open>\<^verbatim>\<open>`${method} ${path}`\<close>\<close>
  "callKey method path = method @ '' '' @ path"

definition mapPush :: "'k \<Rightarrow> 'v \<Rightarrow> ('k \<times> 'v list) list \<Rightarrow> ('k \<times> 'v list) list" where
  \<comment> \<open>\<^verbatim>\<open>if (!m.has(k)) m.set(k, []); m.get(k).push(v)\<close>\<close>
  "mapPush k v m =
     (case map_of m k of
        None \<Rightarrow> mapSet k [v] m
      | Some vs \<Rightarrow> mapSet k (vs @ [v]) m)"

fun detectAll :: "(node \<times> nat) list \<Rightarrow> string \<Rightarrow> api_call list" where
  \<comment> \<open>the traversal: the call expressions of the file in visiting order, each with
      \<^verbatim>\<open>loc.start.line || 0\<close>\<close>
  "detectAll [] file = []"
| "detectAll ((n, line) # rest) file =
     (case detectAPICall n of
        None \<Rightarrow> detectAll rest file
      | Some apiCall \<Rightarrow> apiCall \<lparr> ac_file := file, ac_line := line \<rparr> # detectAll rest file)"

fun recordCalls :: "api_call list \<Rightarrow> (string \<times> call_site list) list \<Rightarrow> (string \<times> call_site list) list" where
  "recordCalls [] apiCalls = apiCalls"
| "recordCalls (call # rest) apiCalls =
     (case normalizeAPICall call of
        None \<Rightarrow> recordCalls rest apiCalls
      | Some normalizedCall \<Rightarrow>
          recordCalls rest
            (mapPush (callKey (cs_method normalizedCall) (cs_endpoint normalizedCall))
               normalizedCall apiCalls))"

definition extractAPICalls :: "(node \<times> nat) list \<Rightarrow> string \<Rightarrow> (string \<times> call_site list) list \<Rightarrow> (string \<times> call_site list) list" where
  \<comment> \<open>\<^verbatim>\<open>this.apiCalls\<close> before and after one file\<close>
  "extractAPICalls ast file apiCalls = recordCalls (detectAll ast file) apiCalls"


section \<open>BackendAnalyzer: route declarations\<close>

record body_field =
  bf_required :: bool

text \<open>An endpoint record; \<open>e_expectedBody\<close> lists the fields of the body schema in the
  order \<^verbatim>\<open>Object.keys\<close> enumerates them.\<close>

record endpoint =
  e_method :: string
  e_path :: string
  e_originalPath :: string
  e_basePath :: string
  e_file :: string
  e_line :: nat
  e_middleware :: "string list"
  e_controller :: "string option"
  e_requiresAuth :: bool
  e_params :: "string list"
  e_queryParams :: "string list"
  e_expectedBody :: "(string \<times> body_field) list"
  e_used :: bool

fun arrayMiddleware :: "node option list \<Rightarrow> error + string list" where
  \<comment> \<open>\<^verbatim>\<open>arg.elements.forEach(element => ...)\<close>; reading \<^verbatim>\<open>element.type\<close> of a hole throws\<close>
  "arrayMiddleware [] = Inr []"
| "arrayMiddleware (None # es) = Inl TypeError"
| "arrayMiddleware (Some (Identifier name) # es) =
     (case arrayMiddleware es of Inl e \<Rightarrow> Inl e | Inr ns \<Rightarrow> Inr (name # ns))"
| "arrayMiddleware (Some _ # es) = arrayMiddleware es"

fun extractMiddlewareAndController :: "node list \<Rightarrow> string list \<Rightarrow> error + (string list \<times> string option)" where
  \<comment> \<open>the loop over the arguments after the path, with the middleware collected so far\<close>
  "extractMiddlewareAndController [] middleware = Inr (middleware, None)"
| "extractMiddlewareAndController (Identifier name # rest) middleware =
     (if rest = [] then Inr (middleware, Some name)
      else extractMiddlewareAndController rest (middleware @ [name]))"
| "extractMiddlewareAndController (MemberExpression obj prop # rest) middleware =
     (let name = nameOr obj @ ''.'' @ nameOr prop
      in if rest = [] then Inr (middleware, Some name)
         else extractMiddlewareAndController rest (middleware @ [name]))"
| "extractMiddlewareAndController (CallExpression callee as # rest) middleware =
     (let name = (case callee of
                    Identifier n \<Rightarrow> (if n = [] then ''unknown'' else n)
                  | MemberExpression obj prop \<Rightarrow> nameOr obj @ ''.'' @ nameOr prop
                  | _ \<Rightarrow> ''unknown'')
      in extractMiddlewareAndController rest (middleware @ [name]))"
| "extractMiddlewareAndController (ArrayExpression elements # rest) middleware =
     (case arrayMiddleware elements of
        Inl e \<Rightarrow> Inl e
      | Inr ns \<Rightarrow> extractMiddlewareAndController rest (middleware @ ns))"
| "extractMiddlewareAndController (_ # rest) middleware =
     extractMiddlewareAndController rest middleware"

definition authPatterns :: "string list" where
  \<comment> \<open>the case-insensitive patterns \<^verbatim>\<open>/auth/i\<close> ... \<^verbatim>\<open>/secure/i\<close>, as lower-case words\<close>
  "authPatterns = [''auth'', ''jwt'', ''verify'', ''protect'', ''authenticate'', ''authorize'',
     ''guard'', ''secure'']"

definition detectAuthRequirement :: "string list \<Rightarrow> bool" where
  "detectAuthRequirement middleware =
     (\<exists>mw \<in> set middleware. \<exists>pattern \<in> set authPatterns. includesStr (toLowerCase mw) pattern)"

function extractPathParams :: "string \<Rightarrow> string list" where
  \<comment> \<open>the matches of \<^verbatim>\<open>/:([^/]+)/g\<close>, each without its colon\<close>
  "extractPathParams [] = []"
| "extractPathParams (c # cs) =
     (if c = CHR '':'' \<and> takeWhile notSlash cs \<noteq> []
      then takeWhile notSlash cs # extractPathParams (dropWhile notSlash cs)
      else extractPathParams cs)"
  by pat_completeness auto
termination
proof (relation "measure length")
  show "wf (measure length)" by simp
next
  fix c :: char and cs :: string
  have "length (dropWhile notSlash cs) \<le> length cs"
    by (rule length_dropWhile_le)
  then show "(dropWhile notSlash cs, c # cs) \<in> measure length" by simp
next
  fix c :: char and cs :: string
  show "(cs, c # cs) \<in> measure length" by simp
qed

definition routeVerbs :: "string list" where
  "routeVerbs = [''get'', ''post'', ''put'', ''patch'', ''delete'', ''options'', ''head'']"

definition routerNames :: "string list" where
  "routerNames = [''router'', ''app'', ''express'']"

fun extractEndpointFromCall :: "node \<Rightarrow> string \<Rightarrow> string \<Rightarrow> nat \<Rightarrow> error + endpoint option" where
  \<comment> \<open>\<open>Inr None\<close> is the source's \<^verbatim>\<open>null\<close>; \<open>line\<close> is \<^verbatim>\<open>node.loc?.start?.line || 0\<close>\<close>
  "extractEndpointFromCall (CallExpression (MemberExpression (Some obj) (Some prop)) arguments)
       basePath file line =
     (if obj \<in> set routerNames \<and> prop \<in> set routeVerbs then
        (case extractStringValue (nthOpt arguments 0) of
           None \<Rightarrow> Inr None
         | Some routePath \<Rightarrow>
             (if routePath = [] then Inr None
              else
                (let fullPath = normalizePath (basePath @ routePath)
                 in case extractMiddlewareAndController (tl arguments) [] of
                      Inl e \<Rightarrow> Inl e
                    | Inr (middleware, controller) \<Rightarrow>
                        Inr (Some \<lparr> e_method = toUpperCase prop, e_path = fullPath,
                               e_originalPath = routePath, e_basePath = basePath,
                               e_file = file, e_line = line, e_middleware = middleware,
                               e_controller = controller,
                               e_requiresAuth = detectAuthRequirement middleware,
                               e_params = extractPathParams fullPath,
                               e_queryParams = [], e_expectedBody = [], e_used = False \<rparr>))))
      else Inr None)"
| "extractEndpointFromCall _ basePath file line = Inr None"

fun analyzeRouteFile :: "(node \<times> nat) list \<Rightarrow> string \<Rightarrow> string \<Rightarrow> (string \<times> endpoint) list \<Rightarrow> error + (string \<times> endpoint) list" where
  \<comment> \<open>the traversal of one parsed route file: its call expressions in visiting order, the
      base path \<^verbatim>\<open>detectBasePath\<close> found for the file, and \<^verbatim>\<open>this.endpoints\<close> before and after\<close>
  "analyzeRouteFile [] basePath relativePath endpoints = Inr endpoints"
| "analyzeRouteFile ((n, line) # rest) basePath relativePath endpoints =
     (case extractEndpointFromCall n basePath relativePath line of
        Inl e \<Rightarrow> Inl e
      | Inr None \<Rightarrow> analyzeRouteFile rest basePath relativePath endpoints
      | Inr (Some endpoint) \<Rightarrow>
          analyzeRouteFile rest basePath relativePath
            (mapSet (callKey (e_method endpoint) (e_path endpoint)) endpoint endpoints))"

text \<open>
  A route file as \<^verbatim>\<open>analyzeRouteFile\<close> meets it: its call expressions in visiting order,
  \<open>None\<close> when the file is empty, unreadable or does not parse (the file is then
  skipped), the base path \<^verbatim>\<open>detectBasePath\<close> finds for it and its relative path.
\<close>

record route_file =
  rf_ast :: "(node \<times> nat) list option"
  rf_basePath :: string
  rf_relativePath :: string

fun analyzeRoutes :: "route_file list \<Rightarrow> (string \<times> endpoint) list \<Rightarrow> error + (string \<times> endpoint) list" where
  \<comment> \<open>the loop over the route files of a run, all writing to the one \<^verbatim>\<open>this.endpoints\<close>\<close>
  "analyzeRoutes [] endpoints = Inr endpoints"
| "analyzeRoutes (file # rest) endpoints =
     (case rf_ast file of
        None \<Rightarrow> analyzeRoutes rest endpoints
      | Some ast \<Rightarrow>
          (case analyzeRouteFile ast (rf_basePath file) (rf_relativePath file) endpoints of
             Inl e \<Rightarrow> Inl e
           | Inr endpoints' \<Rightarrow> analyzeRoutes rest endpoints'))"

record backend_result =
  br_endpoints :: "(string \<times> endpoint) list"
  br_routes :: "endpoint list"

definition backendResult :: "(string \<times> endpoint) list \<Rightarrow> backend_result" where
  \<comment> \<open>what \<^verbatim>\<open>analyze\<close> returns about routes: the endpoint map, and \<^verbatim>\<open>this.routes\<close>, which is
      created empty and never written\<close>
  "backendResult endpoints = \<lparr> br_endpoints = endpoints, br_routes = [] \<rparr>"


section \<open>Issues and rules\<close>

datatype issue_type =
    MISSING_BACKEND_ENDPOINT | UNUSED_ENDPOINT | MISSING_URL_PARAM | EXTRA_URL_PARAM
  | MISSING_BODY_FIELD | EXTRA_BODY_FIELD | MISSING_QUERY_PARAM
  | SENSITIVE_ENDPOINT_NO_AUTH | SENSITIVE_METHOD_NO_AUTH
  | DUPLICATE_COMPONENT | UNUSED_DS_COMPONENT | VERIFY_PROPS_USAGE

text \<open>An issue with the fields that identify it; the message, details and suggestions,
  which are texts built from these fields, are not carried.\<close>

record issue =
  i_type :: issue_type
  i_severity :: string
  i_endpoint :: "string option"
  i_frontend :: "string option"
  i_backend :: "string option"
  i_designSystem :: "string option"
  i_line :: "nat option"
  i_param :: "string option"
  i_field :: "string option"
  i_component :: "string option"
  i_dsComponent :: "string option"
  i_file :: "string option"

definition newIssue :: "issue_type \<Rightarrow> string \<Rightarrow> issue" where
  "newIssue t sev = \<lparr> i_type = t, i_severity = sev, i_endpoint = None, i_frontend = None,
     i_backend = None, i_designSystem = None, i_line = None, i_param = None, i_field = None,
     i_component = None, i_dsComponent = None, i_file = None \<rparr>"

datatype pattern = RegExp "string \<Rightarrow> bool" | StringPattern string

text \<open>The rules object: the severity map, the patterns of endpoints that must require
  authentication (a regular expression is taken as its \<^verbatim>\<open>test\<close> function) and the
  sensitive methods of the security section, \<open>None\<close> where the configuration omits them.\<close>

record rules =
  r_severity :: "(string \<times> string) list"
  r_requireAuthPatterns :: "pattern list option"
  r_sensitiveMethods :: "string list option"

definition severityOr :: "rules \<Rightarrow> string \<Rightarrow> string \<Rightarrow> string" where
  \<comment> \<open>\<^verbatim>\<open>this.rules.severity.name || dflt\<close>\<close>
  "severityOr rs name dflt =
     (case map_of (r_severity rs) name of
        None \<Rightarrow> dflt
      | Some v \<Rightarrow> (if v = [] then dflt else v))"

section \<open>EndpointValidator\<close>

definition digitChar :: "nat \<Rightarrow> char" where
  "digitChar d = char_of (48 + d)"

function showNat :: "nat \<Rightarrow> string" where
  \<comment> \<open>an array index as property name\<close>
  "showNat n = (if n < 10 then [digitChar n] else showNat (n div 10) @ [digitChar (n mod 10)])"
  by pat_completeness auto
termination
proof (relation "measure id")
  show "wf (measure id)" by simp
next
  fix n :: nat
  assume "\<not> n < 10"
  then have "n div 10 < n" by (intro div_less_dividend) simp_all
  then show "(n div 10, n) \<in> measure id" by simp
qed

declare showNat.simps [simp del]

fun objectKeys :: "jsval \<Rightarrow> string list" where
  \<comment> \<open>\<^verbatim>\<open>Object.keys(v)\<close> for a value other than \<^verbatim>\<open>null\<close>\<close>
  "objectKeys (JObject kvs) = map fst kvs"
| "objectKeys (JArray xs) = map showNat [0 ..< length xs]"
| "objectKeys (JString s) = map showNat [0 ..< length s]"
| "objectKeys _ = []"

fun hasOwnProperty :: "jsval \<Rightarrow> string \<Rightarrow> bool" where
  \<comment> \<open>whether the value has the own property \<open>field\<close>\<close>
  "hasOwnProperty (JObject kvs) field = (field \<in> set (map fst kvs))"
| "hasOwnProperty (JArray xs) field =
     (field = ''length'' \<or> field \<in> set (map showNat [0 ..< length xs]))"
| "hasOwnProperty (JString s) field =
     (field = ''length'' \<or> field \<in> set (map showNat [0 ..< length s]))"
| "hasOwnProperty _ field = False"

definition callHasOwnProperty :: "jsval \<Rightarrow> string \<Rightarrow> error + bool" where
  \<comment> \<open>the method call \<^verbatim>\<open>v.hasOwnProperty(field)\<close>: on an object with an own property
      \<^verbatim>\<open>hasOwnProperty\<close>, whose value is no function, the call throws\<close>
  "callHasOwnProperty v field =
     (if hasOwnProperty v ''hasOwnProperty'' then Inl TypeError
      else Inr (hasOwnProperty v field))"

definition schemaHasOwnProperty :: "(string \<times> body_field) list \<Rightarrow> string \<Rightarrow> error + bool" where
  \<comment> \<open>the method call \<^verbatim>\<open>endpoint.expectedBody.hasOwnProperty(field)\<close>\<close>
  "schemaHasOwnProperty expectedBody field =
     (if ''hasOwnProperty'' \<in> set (map fst expectedBody) then Inl TypeError
      else Inr (field \<in> set (map fst expectedBody)))"

definition validateURLParams :: "endpoint \<Rightarrow> call_site \<Rightarrow> rules \<Rightarrow> issue list" where
  "validateURLParams endpoint call rs =
     map (\<lambda>param. (newIssue MISSING_URL_PARAM (severityOr rs ''missingParam'' ''HIGH''))
            \<lparr> i_endpoint := Some (callKey (e_method endpoint) (e_path endpoint)),
               i_frontend := Some (cs_file call), i_backend := Some (e_file endpoint),
               i_param := Some param \<rparr>)
       (filter (\<lambda>param. param \<notin> set (cs_params call)
                  \<and> \<not> includesStr (cs_endpoint call) ('':'' @ param))
          (e_params endpoint))
     @ map (\<lambda>param. (newIssue EXTRA_URL_PARAM ''LOW'')
            \<lparr> i_endpoint := Some (callKey (e_method endpoint) (e_path endpoint)),
               i_frontend := Some (cs_file call), i_param := Some param \<rparr>)
       (filter (\<lambda>param. param \<notin> set (e_params endpoint)) (cs_params call))"

definition missingBodyFieldIssue :: "endpoint \<Rightarrow> call_site \<Rightarrow> rules \<Rightarrow> string \<Rightarrow> issue" where
  "missingBodyFieldIssue endpoint call rs field =
     (newIssue MISSING_BODY_FIELD (severityOr rs ''missingBodyField'' ''MEDIUM''))
       \<lparr> i_endpoint := Some (callKey (e_method endpoint) (e_path endpoint)),
          i_frontend := Some (cs_file call), i_backend := Some (e_file endpoint),
          i_field := Some field \<rparr>"

definition extraBodyFieldIssue :: "endpoint \<Rightarrow> call_site \<Rightarrow> string \<Rightarrow> issue" where
  "extraBodyFieldIssue endpoint call field =
     (newIssue EXTRA_BODY_FIELD ''LOW'')
       \<lparr> i_endpoint := Some (callKey (e_method endpoint) (e_path endpoint)),
          i_frontend := Some (cs_file call), i_field := Some field \<rparr>"

fun requiredFields :: "endpoint \<Rightarrow> call_site \<Rightarrow> rules \<Rightarrow> (string \<times> body_field) list \<Rightarrow> error + issue list" where
  \<comment> \<open>the first loop of \<^verbatim>\<open>validateRequestBody\<close>, over the fields of the schema that remain;
      \<^verbatim>\<open>bodyField.required && !call.data.hasOwnProperty(field)\<close> makes the call only for a
      required field\<close>
  "requiredFields endpoint call rs [] = Inr []"
| "requiredFields endpoint call rs ((field, bodyField) # rest) =
     (if bf_required bodyField then
        (case callHasOwnProperty (cs_data call) field of
           Inl e \<Rightarrow> Inl e
         | Inr has \<Rightarrow>
             (case requiredFields endpoint call rs rest of
                Inl e \<Rightarrow> Inl e
              | Inr issues \<Rightarrow>
                  Inr (if has then issues
                       else missingBodyFieldIssue endpoint call rs field # issues)))
      else requiredFields endpoint call rs rest)"

fun extraFields :: "endpoint \<Rightarrow> call_site \<Rightarrow> string list \<Rightarrow> error + issue list" where
  \<comment> \<open>the second loop, over the keys of the call's body that remain\<close>
  "extraFields endpoint call [] = Inr []"
| "extraFields endpoint call (field # rest) =
     (case schemaHasOwnProperty (e_expectedBody endpoint) field of
        Inl e \<Rightarrow> Inl e
      | Inr has \<Rightarrow>
          (case extraFields endpoint call rest of
             Inl e \<Rightarrow> Inl e
           | Inr issues \<Rightarrow>
               Inr (if has then issues else extraBodyFieldIssue endpoint call field # issues)))"

definition validateRequestBody :: "endpoint \<Rightarrow> call_site \<Rightarrow> rules \<Rightarrow> error + issue list" where
  \<comment> \<open>the issues the body check pushes, or the exception it throws\<close>
  "validateRequestBody endpoint call rs =
     (if \<not> truthy (cs_data call) \<or> length (objectKeys (cs_data call)) = 0 then Inr []
      else
        (case requiredFields endpoint call rs (e_expectedBody endpoint) of
           Inl e \<Rightarrow> Inl e
         | Inr missing \<Rightarrow>
             (case extraFields endpoint call (objectKeys (cs_data call)) of
                Inl e \<Rightarrow> Inl e
              | Inr extra \<Rightarrow> Inr (missing @ extra))))"

definition validateQueryParams :: "endpoint \<Rightarrow> call_site \<Rightarrow> issue list" where
  "validateQueryParams endpoint call =
     map (\<lambda>param. (newIssue MISSING_QUERY_PARAM ''LOW'')
            \<lparr> i_endpoint := Some (callKey (e_method endpoint) (e_path endpoint)),
               i_frontend := Some (cs_file call), i_backend := Some (e_file endpoint),
               i_param := Some param \<rparr>)
       (filter (\<lambda>param. param \<notin> set (cs_queryParams call)) (e_queryParams endpoint))"

definition validateEndpointUsage :: "endpoint \<Rightarrow> call_site \<Rightarrow> rules \<Rightarrow> error + issue list" where
  "validateEndpointUsage endpoint call rs =
     (case validateRequestBody endpoint call rs of
        Inl e \<Rightarrow> Inl e
      | Inr body \<Rightarrow>
          Inr (validateURLParams endpoint call rs @ body @ validateQueryParams endpoint call))"

text \<open>
  The validator's state is the endpoint map, whose entries it marks as used, and the
  list of issues pushed so far. Each key of the map holds an endpoint object of its own
  (the extractor creates one per declaration), so marking is an update at the key. An
  exception of the body check leaves \<^verbatim>\<open>validate\<close> at once: the run then returns no issues.
\<close>

definition missingEndpointIssue :: "rules \<Rightarrow> string \<Rightarrow> call_site \<Rightarrow> issue" where
  "missingEndpointIssue rs key call =
     (newIssue MISSING_BACKEND_ENDPOINT (severityOr rs ''missingEndpoint'' ''CRITICAL''))
       \<lparr> i_endpoint := Some key, i_frontend := Some (cs_file call),
          i_line := Some (cs_line call) \<rparr>"

definition unusedEndpointIssue :: "rules \<Rightarrow> string \<Rightarrow> endpoint \<Rightarrow> issue" where
  "unusedEndpointIssue rs key endpoint =
     (newIssue UNUSED_ENDPOINT (severityOr rs ''unusedEndpoint'' ''LOW''))
       \<lparr> i_endpoint := Some key, i_backend := Some (e_file endpoint),
          i_line := Some (e_line endpoint) \<rparr>"

fun validateCalls :: "rules \<Rightarrow> string \<Rightarrow> call_site list \<Rightarrow> (string \<times> endpoint) list \<times> issue list \<Rightarrow> error + (string \<times> endpoint) list \<times> issue list" where
  \<comment> \<open>the inner \<^verbatim>\<open>calls.forEach\<close> for one key\<close>
  "validateCalls rs key [] st = Inr st"
| "validateCalls rs key (call # calls) (backendEndpoints, issues) =
     (case mapGet backendEndpoints key of
        None \<Rightarrow>
          validateCalls rs key calls
            (backendEndpoints, issues @ [missingEndpointIssue rs key call])
      | Some endpoint \<Rightarrow>
          (let endpoint' = endpoint \<lparr> e_used := True \<rparr>
           in case validateEndpointUsage endpoint' call rs of
                Inl e \<Rightarrow> Inl e
              | Inr usage \<Rightarrow>
                  validateCalls rs key calls
                    (mapSet key endpoint' backendEndpoints, issues @ usage)))"

fun validateAllCalls :: "rules \<Rightarrow> (string \<times> call_site list) list \<Rightarrow> (string \<times> endpoint) list \<times> issue list \<Rightarrow> error + (string \<times> endpoint) list \<times> issue list" where
  \<comment> \<open>the outer \<^verbatim>\<open>frontendAPICalls.forEach\<close>\<close>
  "validateAllCalls rs [] st = Inr st"
| "validateAllCalls rs ((key, calls) # rest) st =
     (case validateCalls rs key calls st of
        Inl e \<Rightarrow> Inl e
      | Inr st' \<Rightarrow> validateAllCalls rs rest st')"

definition unusedEndpoints :: "rules \<Rightarrow> (string \<times> endpoint) list \<Rightarrow> issue list" where
  "unusedEndpoints rs backendEndpoints =
     map (\<lambda>(key, endpoint). unusedEndpointIssue rs key endpoint)
       (filter (\<lambda>(key, endpoint). \<not> e_used endpoint) backendEndpoints)"

definition validate :: "rules \<Rightarrow> (string \<times> endpoint) list \<Rightarrow> (string \<times> call_site list) list \<Rightarrow> error + (string \<times> endpoint) list \<times> issue list" where
  \<comment> \<open>\<^verbatim>\<open>EndpointValidator.validate\<close>: the endpoint map as the run leaves it and the issues it
      returns, or the exception that ends it\<close>
  "validate rs backendEndpoints frontendAPICalls =
     (case validateAllCalls rs frontendAPICalls (backendEndpoints, []) of
        Inl e \<Rightarrow> Inl e
      | Inr (endpoints', issues) \<Rightarrow> Inr (endpoints', issues @ unusedEndpoints rs endpoints'))"

section \<open>SecurityValidator\<close>

definition sensitiveKeywords :: "string list" where
  "sensitiveKeywords = [''admin'', ''delete'', ''remove'', ''destroy'', ''create'', ''add'',
     ''update'', ''edit'', ''modify'', ''password'', ''auth'', ''login'', ''register'', ''user'',
     ''profile'', ''settings'', ''config'', ''upload'', ''file'']"

fun matchesPattern :: "string \<Rightarrow> pattern \<Rightarrow> bool" where
  "matchesPattern key (RegExp test) = test key"
| "matchesPattern key (StringPattern p) = includesStr (toLowerCase key) (toLowerCase p)"

definition isSensitiveEndpoint :: "rules \<Rightarrow> string \<Rightarrow> bool" where
  "isSensitiveEndpoint rs key =
     (let patterns = (case r_requireAuthPatterns rs of None \<Rightarrow> [] | Some ps \<Rightarrow> ps)
      in if \<exists>p \<in> set patterns. matchesPattern key p then True
         else \<exists>keyword \<in> set sensitiveKeywords. includesStr (toLowerCase key) keyword)"

definition lineTerminator :: "char \<Rightarrow> bool" where
  \<comment> \<open>the characters a dot of a regular expression does not match\<close>
  "lineTerminator c = (c = CHR 0x0A \<or> c = CHR 0x0D)"

definition staticExtensions :: "string list" where
  "staticExtensions = [''css'', ''js'', ''png'', ''jpg'', ''gif'', ''ico'']"

definition staticFileKey :: "string \<Rightarrow> bool" where
  \<comment> \<open>\<^verbatim>\<open>/^GET .*\.(css|js|png|jpg|gif|ico)$/\<close>\<close>
  "staticFileKey key =
     (startsWith key ''GET '' \<and>
      (\<exists>ext \<in> set staticExtensions.
         endsWith (drop 4 key) (''.'' @ ext)
         \<and> \<not> (\<exists>c \<in> set (take (length key - 4 - (length ext + 1)) (drop 4 key)).
                 lineTerminator c)))"

definition isExemptFromAuth :: "string \<Rightarrow> bool" where
  "isExemptFromAuth key =
     (endsWith key ''/health'' \<or> endsWith key ''/status'' \<or> endsWith key ''/version''
      \<or> endsWith key ''/ping'' \<or> includesStr key ''/public/'' \<or> includesStr key ''/static/''
      \<or> includesStr key ''/assets/'' \<or> key = ''GET /'' \<or> staticFileKey key
      \<or> endsWith key ''/auth/login'' \<or> endsWith key ''/auth/register''
      \<or> endsWith key ''/auth/forgot-password'' \<or> endsWith key ''/auth/reset-password'')"

definition sensitiveEndpointIssue :: "rules \<Rightarrow> string \<Rightarrow> endpoint \<Rightarrow> issue" where
  "sensitiveEndpointIssue rs key endpoint =
     (newIssue SENSITIVE_ENDPOINT_NO_AUTH (severityOr rs ''sensitiveEndpointNoAuth'' ''CRITICAL''))
       \<lparr> i_endpoint := Some key, i_backend := Some (e_file endpoint),
          i_line := Some (e_line endpoint) \<rparr>"

definition validateAuthenticationRequirements :: "rules \<Rightarrow> (string \<times> endpoint) list \<Rightarrow> issue list" where
  "validateAuthenticationRequirements rs backendEndpoints =
     map (\<lambda>(key, endpoint). sensitiveEndpointIssue rs key endpoint)
       (filter (\<lambda>(key, endpoint). isSensitiveEndpoint rs key \<and> \<not> e_requiresAuth endpoint)
          backendEndpoints)"

definition validateSensitiveMethods :: "rules \<Rightarrow> (string \<times> endpoint) list \<Rightarrow> issue list" where
  "validateSensitiveMethods rs backendEndpoints =
     (let sensitiveMethods = (case r_sensitiveMethods rs of
                                None \<Rightarrow> [''POST'', ''PUT'', ''PATCH'', ''DELETE'']
                              | Some ms \<Rightarrow> ms)
      in map (\<lambda>(key, endpoint). (newIssue SENSITIVE_METHOD_NO_AUTH ''HIGH'')
                \<lparr> i_endpoint := Some key, i_backend := Some (e_file endpoint),
                   i_line := Some (e_line endpoint) \<rparr>)
           (filter (\<lambda>(key, endpoint). e_method endpoint \<in> set sensitiveMethods
                      \<and> \<not> e_requiresAuth endpoint \<and> \<not> isExemptFromAuth key)
              backendEndpoints))"


section \<open>CacheManager\<close>

text \<open>
  The state a read touches: the in-memory cache (a value with the time it stops being
  valid, \<open>0\<close> for never), the cache directory as a map from paths to files, and the
  counters. A file has a modification time in milliseconds and its text. \<^verbatim>\<open>JSON.parse\<close>
  is a parameter: \<open>None\<close> where parsing throws (or yields \<^verbatim>\<open>null\<close>, whose \<^verbatim>\<open>expires\<close>
  cannot be read), otherwise the \<^verbatim>\<open>data\<close> and \<^verbatim>\<open>expires\<close> fields of the entry.
  All readings of the clock within one call are the same instant \<open>now\<close>.
\<close>

record cache_file =
  cf_mtime :: int
  cf_content :: string

record cached_entry =
  ce_data :: jsval
  ce_expires :: "int option"

record cache_stats =
  st_hits :: nat
  st_misses :: nat
  st_writes :: nat
  st_deletes :: nat

record cache_manager =
  cm_cacheDir :: string
  cm_maxAge :: int
  cm_memoryCache :: "(string \<times> (jsval \<times> int)) list"
  cm_files :: "(string \<times> cache_file) list"
  cm_stats :: cache_stats

definition memoryCacheGet :: "(string \<times> (jsval \<times> int)) list \<Rightarrow> int \<Rightarrow> string \<Rightarrow> jsval option" where
  \<comment> \<open>the in-memory store's read: an entry past its time is not returned\<close>
  "memoryCacheGet mem now memKey =
     (case map_of mem memKey of
        None \<Rightarrow> None
      | Some (v, t) \<Rightarrow> (if t \<noteq> 0 \<and> t < now then None else Some v))"

definition pathJoin :: "string \<Rightarrow> string \<Rightarrow> string \<Rightarrow> string" where
  \<comment> \<open>\<^verbatim>\<open>path.join(this.cacheDir, category, `${key}.json`)\<close> for plain directory names\<close>
  "pathJoin cacheDir category key = cacheDir @ ''/'' @ category @ ''/'' @ key @ ''.json''"

definition unlinkSync :: "string \<Rightarrow> (string \<times> cache_file) list \<Rightarrow> (string \<times> cache_file) list" where
  "unlinkSync filePath files = filter (\<lambda>(p, f). p \<noteq> filePath) files"

definition countMiss :: "cache_manager \<Rightarrow> cache_manager" where
  "countMiss cm = cm \<lparr> cm_stats := (cm_stats cm) \<lparr> st_misses := Suc (st_misses (cm_stats cm)) \<rparr> \<rparr>"

definition countHit :: "cache_manager \<Rightarrow> cache_manager" where
  "countHit cm = cm \<lparr> cm_stats := (cm_stats cm) \<lparr> st_hits := Suc (st_hits (cm_stats cm)) \<rparr> \<rparr>"

definition get :: "(string \<Rightarrow> cached_entry option) \<Rightarrow> int \<Rightarrow> cache_manager \<Rightarrow> string \<Rightarrow> string \<Rightarrow> jsval \<times> cache_manager" where
  \<comment> \<open>\<^verbatim>\<open>CacheManager.get(key, category)\<close>: the value returned (\<open>JNull\<close> is the miss) and the
      manager afterwards\<close>
  "get jsonParse now cm key category =
     (let memKey = category @ '':'' @ key;
          memResult = memoryCacheGet (cm_memoryCache cm) now memKey
      in case (case memResult of None \<Rightarrow> None | Some v \<Rightarrow> (if truthy v then Some v else None)) of
           Some v \<Rightarrow> (v, countHit cm)
         | None \<Rightarrow>
             (let filePath = pathJoin (cm_cacheDir cm) category key
              in case map_of (cm_files cm) filePath of
                   None \<Rightarrow> (JNull, countMiss cm)
                 | Some file \<Rightarrow>
                     (if now - cf_mtime file > cm_maxAge cm * 1000 then
                        (JNull, countMiss (cm \<lparr> cm_files := unlinkSync filePath (cm_files cm) \<rparr>))
                      else
                        (case jsonParse (cf_content file) of
                           None \<Rightarrow> (JNull, countMiss cm)
                         | Some cached \<Rightarrow>
                             (if (case ce_expires cached of
                                    None \<Rightarrow> False
                                  | Some e \<Rightarrow> e \<noteq> 0 \<and> now > e) then
                                (JNull, countMiss (cm \<lparr> cm_files := unlinkSync filePath (cm_files cm) \<rparr>))
                              else
                                (ce_data cached,
                                 countHit (cm \<lparr> cm_memoryCache :=
                                   mapSet memKey (ce_data cached, now + 300 * 1000)
                                     (cm_memoryCache cm) \<rparr>)))))))"

fun clearExpiredFiles :: "(string \<Rightarrow> cached_entry option) \<Rightarrow> int \<Rightarrow> int \<Rightarrow> (string \<times> cache_file) list \<Rightarrow> (string \<times> cache_file) list" where
  \<comment> \<open>the files \<^verbatim>\<open>clearExpired\<close> leaves: it removes a file past the maximal age, an entry
      past its own expiry, and a file that cannot be parsed\<close>
  "clearExpiredFiles jsonParse now maxAge [] = []"
| "clearExpiredFiles jsonParse now maxAge ((p, file) # rest) =
     (if now - cf_mtime file > maxAge * 1000 then clearExpiredFiles jsonParse now maxAge rest
      else
        (case jsonParse (cf_content file) of
           None \<Rightarrow> clearExpiredFiles jsonParse now maxAge rest
         | Some cached \<Rightarrow>
             (if (case ce_expires cached of None \<Rightarrow> False | Some e \<Rightarrow> e \<noteq> 0 \<and> now > e)
              then clearExpiredFiles jsonParse now maxAge rest
              else (p, file) # clearExpiredFiles jsonParse now maxAge rest)))"


section \<open>ComponentValidator\<close>

record ds_prop =
  p_name :: string
  p_hasDefault :: bool

record ds_component =
  dc_name :: string
  dc_file :: string
  dc_line :: nat
  dc_props :: "ds_prop list"
  dc_used :: bool
  dc_usedIn :: "string list"

record fe_component =
  fc_name :: string
  fc_file :: string

record import_info =
  im_source :: string
  im_specifiers :: "(string \<times> string) list"
  im_isDefault :: bool
  im_defaultName :: "string option"

definition simulatedImport :: import_info where
  "simulatedImport = \<lparr> im_source = ''@design-system/components'',
     im_specifiers = [(''Button'', ''Button''), (''Input'', ''Input'')],
     im_isDefault = False, im_defaultName = None \<rparr>"

fun extractImportsFromFrontend :: "(string \<times> fe_component) list \<Rightarrow> (string \<times> import_info list) list \<Rightarrow> (string \<times> import_info list) list" where
  \<comment> \<open>one simulated import per frontend component, grouped by file\<close>
  "extractImportsFromFrontend [] imports = imports"
| "extractImportsFromFrontend ((key, component) # rest) imports =
     extractImportsFromFrontend rest (mapPush (fc_file component) simulatedImport imports)"

fun dotStarThen :: "string \<Rightarrow> string \<Rightarrow> bool" where
  \<comment> \<open>\<^verbatim>\<open>.*p\<close> matched from the start of the text\<close>
  "dotStarThen [] p = (p = [])"
| "dotStarThen (c # cs) p = (startsWith (c # cs) p \<or> (\<not> lineTerminator c \<and> dotStarThen cs p))"

fun atDotStar :: "string \<Rightarrow> string \<Rightarrow> bool" where
  \<comment> \<open>\<^verbatim>\<open>/@.*p/.test(s)\<close>\<close>
  "atDotStar [] p = False"
| "atDotStar (c # cs) p = ((c = CHR ''@'' \<and> dotStarThen cs p) \<or> atDotStar cs p)"

definition isDesignSystemImport :: "string \<Rightarrow> bool" where
  "isDesignSystemImport source =
     (atDotStar source ''design-system'' \<or> atDotStar source ''ui''
      \<or> atDotStar source ''components'' \<or> includesStr source ''design-system''
      \<or> includesStr source ''ui-kit'' \<or> includesStr source ''component-library''
      \<or> includesStr source ''../design-system'' \<or> includesStr source ''../components'')"

definition markUsed :: "string \<Rightarrow> string \<Rightarrow> (string \<times> ds_component) list \<Rightarrow> (string \<times> ds_component) list" where
  \<comment> \<open>\<^verbatim>\<open>if (names.has(n)) { c = m.get(n); c.used = true; c.usedIn.push(file) }\<close>\<close>
  "markUsed componentName file designSystemComponents =
     (case map_of designSystemComponents componentName of
        None \<Rightarrow> designSystemComponents
      | Some component \<Rightarrow>
          mapSet componentName
            (component \<lparr> dc_used := True, dc_usedIn := dc_usedIn component @ [file] \<rparr>)
            designSystemComponents)"

fun markSpecifiers :: "(string \<times> string) list \<Rightarrow> string \<Rightarrow> (string \<times> ds_component) list \<Rightarrow> (string \<times> ds_component) list" where
  "markSpecifiers [] file ds = ds"
| "markSpecifiers ((imported, local) # specs) file ds =
     markSpecifiers specs file (markUsed (if imported \<noteq> [] then imported else local) file ds)"

definition markImport :: "import_info \<Rightarrow> string \<Rightarrow> (string \<times> ds_component) list \<Rightarrow> (string \<times> ds_component) list" where
  "markImport imp file ds =
     (if isDesignSystemImport (im_source imp) then
        (let ds' = markSpecifiers (im_specifiers imp) file ds
         in case im_defaultName imp of
              Some defaultName \<Rightarrow>
                (if im_isDefault imp \<and> defaultName \<noteq> [] then markUsed defaultName file ds'
                 else ds')
            | None \<Rightarrow> ds')
      else ds)"

fun markImports :: "import_info list \<Rightarrow> string \<Rightarrow> (string \<times> ds_component) list \<Rightarrow> (string \<times> ds_component) list" where
  "markImports [] file ds = ds"
| "markImports (imp # imps) file ds = markImports imps file (markImport imp file ds)"

fun markAllImports :: "(string \<times> import_info list) list \<Rightarrow> (string \<times> ds_component) list \<Rightarrow> (string \<times> ds_component) list" where
  "markAllImports [] ds = ds"
| "markAllImports ((file, importInfo) # rest) ds = markAllImports rest (markImports importInfo file ds)"

definition stripSuffix :: "string \<Rightarrow> string \<Rightarrow> string" where
  \<comment> \<open>\<^verbatim>\<open>s.replace(/suffix$/, '')\<close>\<close>
  "stripSuffix suffix s = (if endsWith s suffix then take (length s - length suffix) s else s)"

definition stripLeading :: "string \<Rightarrow> string \<Rightarrow> string" where
  \<comment> \<open>\<^verbatim>\<open>s.replace(/^prefix/, '')\<close>\<close>
  "stripLeading prefix s = (if startsWith s prefix then drop (length prefix) s else s)"

fun replaceFirstOf :: "string \<Rightarrow> string \<Rightarrow> string \<Rightarrow> string \<Rightarrow> string" where
  \<comment> \<open>\<^verbatim>\<open>s.replace(/a|b/, r)\<close>: the leftmost match, \<open>a\<close> tried before \<open>b\<close> at each place\<close>
  "replaceFirstOf a b r [] = []"
| "replaceFirstOf a b r (c # cs) =
     (if startsWith (c # cs) a then r @ drop (length a) (c # cs)
      else if startsWith (c # cs) b then r @ drop (length b) (c # cs)
      else c # replaceFirstOf a b r cs)"

definition normalizeName :: "string \<Rightarrow> string" where
  \<comment> \<open>the local \<^verbatim>\<open>normalize\<close> of \<^verbatim>\<open>areComponentsSimilar\<close>\<close>
  "normalizeName name =
     replaceFirstOf ''card'' ''panel'' ''card''
       (replaceFirstOf ''modal'' ''dialog'' ''modal''
          (replaceFirstOf ''input'' ''field'' ''input''
             (replaceFirstOf ''button'' ''btn'' ''button''
                (stripLeading ''ds'' (stripLeading ''ui'' (stripSuffix ''component'' (toLowerCase name)))))))"

fun matrixRow :: "char \<Rightarrow> string \<Rightarrow> nat list \<Rightarrow> nat \<Rightarrow> nat list" where
  \<comment> \<open>the cells \<^verbatim>\<open>matrix[i][j]\<close>, \<open>j \<ge> 1\<close>, of one row: \<open>c\<close> is \<^verbatim>\<open>str2.charAt(i - 1)\<close>, the
      list is the row above from column \<open>j - 1\<close> on, \<open>left\<close> is \<^verbatim>\<open>matrix[i][j - 1]\<close>\<close>
  "matrixRow c (x # xs) (diag # up # prev) left =
     (let v = (if c = x then diag else min (min (diag + 1) (left + 1)) (up + 1))
      in v # matrixRow c xs (up # prev) v)"
| "matrixRow c _ _ left = []"

fun matrixRows :: "string \<Rightarrow> string \<Rightarrow> nat list \<Rightarrow> nat \<Rightarrow> nat list" where
  \<comment> \<open>the last row of the matrix, given row \<open>i - 1\<close> and the remaining characters of \<^verbatim>\<open>str2\<close>\<close>
  "matrixRows str1 [] prev i = prev"
| "matrixRows str1 (c # cs) prev i = matrixRows str1 cs (i # matrixRow c str1 prev i) (Suc i)"

definition levenshteinDistance :: "string \<Rightarrow> string \<Rightarrow> nat" where
  "levenshteinDistance str1 str2 = last (matrixRows str1 str2 [0 ..< Suc (length str1)] 1)"

definition calculateSimilarity :: "string \<Rightarrow> string \<Rightarrow> nat \<times> nat" where
  \<comment> \<open>the ratio as numerator and denominator, \<open>(1, 1)\<close> for the source's \<^verbatim>\<open>1.0\<close>\<close>
  "calculateSimilarity str1 str2 =
     (let longer = (if length str1 > length str2 then str1 else str2);
          shorter = (if length str1 > length str2 then str2 else str1)
      in if length longer = 0 then (1, 1)
         else (length longer - levenshteinDistance longer shorter, length longer))"

definition areComponentsSimilar :: "string \<Rightarrow> string \<Rightarrow> bool" where
  \<comment> \<open>\<^verbatim>\<open>similarity > 0.8\<close> is compared as \<open>5 * numerator > 4 * denominator\<close>\<close>
  "areComponentsSimilar name1 name2 =
     (let norm1 = normalizeName name1; norm2 = normalizeName name2
      in if norm1 = norm2 then True
         else if includesStr norm1 norm2 \<or> includesStr norm2 norm1 then True
         else (case calculateSimilarity norm1 norm2 of (n, d) \<Rightarrow> 5 * n > 4 * d))"

definition duplicateIssue :: "fe_component \<Rightarrow> ds_component \<Rightarrow> issue" where
  "duplicateIssue component dsComponent =
     (newIssue DUPLICATE_COMPONENT ''MEDIUM'')
       \<lparr> i_frontend := Some (fc_file component), i_designSystem := Some (dc_file dsComponent),
          i_component := Some (fc_name component), i_dsComponent := Some (dc_name dsComponent) \<rparr>"

definition detectIncorrectUsage :: "(string \<times> ds_component) list \<Rightarrow> (string \<times> fe_component) list \<Rightarrow> issue list" where
  "detectIncorrectUsage designSystemComponents frontendComponents =
     (let dsComponentNames = map (\<lambda>(name, c). toLowerCase name) designSystemComponents
      in concat (map (\<lambda>(key, component).
           (case find (\<lambda>dsName. areComponentsSimilar (toLowerCase (fc_name component)) dsName)
                   dsComponentNames of
              None \<Rightarrow> []
            | Some similarDSComponent \<Rightarrow>
                (if similarDSComponent = [] then []
                 else
                   (case find (\<lambda>ds. toLowerCase (dc_name ds) = similarDSComponent)
                           (map snd designSystemComponents) of
                      None \<Rightarrow> []
                    | Some dsComponent \<Rightarrow>
                        (if \<not> dc_used dsComponent then [duplicateIssue component dsComponent]
                         else []))))) frontendComponents))"

definition validateComponentUsage :: "(string \<times> ds_component) list \<Rightarrow> (string \<times> fe_component) list \<Rightarrow> (string \<times> ds_component) list \<times> issue list" where
  \<comment> \<open>the design-system map after marking, and the issues pushed\<close>
  "validateComponentUsage designSystemComponents frontendComponents =
     (let frontendImports = extractImportsFromFrontend frontendComponents [];
          marked = markAllImports frontendImports designSystemComponents
      in (marked, detectIncorrectUsage marked frontendComponents))"

definition unusedComponentIssue :: "rules \<Rightarrow> string \<Rightarrow> ds_component \<Rightarrow> issue" where
  "unusedComponentIssue rs name component =
     (newIssue UNUSED_DS_COMPONENT (severityOr rs ''unusedComponent'' ''LOW''))
       \<lparr> i_component := Some name, i_designSystem := Some (dc_file component),
          i_line := Some (dc_line component) \<rparr>"

definition findUnusedComponents :: "rules \<Rightarrow> (string \<times> ds_component) list \<Rightarrow> issue list" where
  "findUnusedComponents rs designSystemComponents =
     map (\<lambda>(name, component). unusedComponentIssue rs name component)
       (filter (\<lambda>(name, component). \<not> dc_used component) designSystemComponents)"

definition validateBasicPropsUsage :: "ds_component \<Rightarrow> issue list" where
  "validateBasicPropsUsage dsComponent =
     (let requiredProps = filter (\<lambda>prop. \<not> p_hasDefault prop \<and> p_name prop \<noteq> ''children'')
                            (dc_props dsComponent)
      in if length requiredProps > 0 then
           map (\<lambda>file. (newIssue VERIFY_PROPS_USAGE ''LOW'')
                  \<lparr> i_component := Some (dc_name dsComponent), i_file := Some file \<rparr>)
             (dc_usedIn dsComponent)
         else [])"

definition validatePropsConsistency :: "(string \<times> ds_component) list \<Rightarrow> issue list" where
  "validatePropsConsistency designSystemComponents =
     concat (map (\<lambda>(name, dsComponent).
       (if dc_used dsComponent \<and> length (dc_props dsComponent) > 0
        then validateBasicPropsUsage dsComponent else [])) designSystemComponents)"

definition validateComponents :: "rules \<Rightarrow> (string \<times> ds_component) list option \<Rightarrow> (string \<times> fe_component) list option \<Rightarrow> issue list" where
  \<comment> \<open>\<^verbatim>\<open>ComponentValidator.validate\<close>; an absent map is \<open>None\<close>\<close>
  "validateComponents rs designSystemComponents frontendComponents =
     (case (designSystemComponents, frontendComponents) of
        (Some ds, Some fe) \<Rightarrow>
          (let (marked, issues1) = validateComponentUsage ds fe
           in issues1 @ findUnusedComponents rs marked @ detectIncorrectUsage marked fe
                @ validatePropsConsistency marked)
      | _ \<Rightarrow> [])"


section \<open>Predicates used in the statements\<close>

fun noDouble :: "string \<Rightarrow> bool" where
  \<comment> \<open>no two slashes in a row\<close>
  "noDouble [] = True"
| "noDouble [c] = True"
| "noDouble (a # b # cs) = (\<not> (a = CHR ''/'' \<and> b = CHR ''/'') \<and> noDouble (b # cs))"

definition normalForm :: "string \<Rightarrow> bool" where
  \<comment> \<open>what step 4 of the normalization establishes\<close>
  "normalForm r = (noDouble r \<and> startsWith r ''/'' \<and> \<not> (length r > 1 \<and> endsWith r ''/''))"

definition issuesOfType :: "issue_type \<Rightarrow> issue list \<Rightarrow> issue list" where
  "issuesOfType t issues = filter (\<lambda>i. i_type i = t) issues"

definition noQueryRecorded :: "(string \<times> call_site list) list \<Rightarrow> bool" where
  \<comment> \<open>no call site of the map has a query parameter or a \<open>?\<close> in its endpoint\<close>
  "noQueryRecorded apiCalls =
     (\<forall>(key, calls) \<in> set apiCalls. \<forall>c \<in> set calls.
        cs_queryParams c = [] \<and> CHR ''?'' \<notin> set (cs_endpoint c))"

definition callRecords :: "(string \<times> call_site list) list \<Rightarrow> (string \<times> call_site) list" where
  \<comment> \<open>the call-site records of the map in iteration order, each with the key it is filed under\<close>
  "callRecords frontendAPICalls =
     concat (map (\<lambda>(key, calls). map (\<lambda>call. (key, call)) calls) frontendAPICalls)"

definition routeKey :: "endpoint \<Rightarrow> string" where
  \<comment> \<open>the identity of a declaration: \<^verbatim>\<open>`${endpoint.method} ${endpoint.path}`\<close>\<close>
  "routeKey e = callKey (e_method e) (e_path e)"


section \<open>Sample inputs\<close>

definition sampleRules :: rules where
  \<comment> \<open>rules whose severity map and patterns are left to the defaults of the code\<close>
  "sampleRules = \<lparr> r_severity = [], r_requireAuthPatterns = None, r_sensitiveMethods = None \<rparr>"

definition sampleEndpoint :: "string \<Rightarrow> string \<Rightarrow> nat \<Rightarrow> endpoint" where
  \<comment> \<open>an endpoint as the route extractor creates it, without middleware\<close>
  "sampleEndpoint method path line =
     \<lparr> e_method = method, e_path = path, e_originalPath = path, e_basePath = [],
       e_file = ''routes/api.js'', e_line = line, e_middleware = [], e_controller = None,
       e_requiresAuth = False, e_params = extractPathParams path, e_queryParams = [],
       e_expectedBody = [], e_used = False \<rparr>"

definition sampleCall :: "string \<Rightarrow> string \<Rightarrow> nat \<Rightarrow> jsval \<Rightarrow> call_site" where
  "sampleCall method path line data =
     \<lparr> cs_method = method, cs_endpoint = path, cs_originalUrl = Some path,
       cs_file = ''src/api.js'', cs_line = line, cs_type = Axios, cs_data = data,
       cs_hasAuth = False, cs_params = extractURLParams path, cs_queryParams = [] \<rparr>"

definition sampleEndpoints :: "(string \<times> endpoint) list" where
  "sampleEndpoints =
     [(''GET /api/users'', sampleEndpoint ''GET'' ''/api/users'' 4),
      (''DELETE /api/users/:id'', sampleEndpoint ''DELETE'' ''/api/users/:id'' 9)]"

definition sampleCalls :: "(string \<times> call_site list) list" where
  "sampleCalls =
     [(''GET /api/users'', [sampleCall ''GET'' ''/api/users'' 12 (JObject [])]),
      (''POST /api/orders'',
       [sampleCall ''POST'' ''/api/orders'' 20 (JObject [(''items'', JString ''<items>'')]),
        sampleCall ''POST'' ''/api/orders'' 31 (JObject [])])]"

definition signupEndpoint :: endpoint where
  \<comment> \<open>an endpoint whose body schema requires \<open>email\<close> and knows an optional \<open>name\<close>\<close>
  "signupEndpoint =
     (sampleEndpoint ''POST'' ''/api/signup'' 3)
       \<lparr> e_expectedBody := [(''email'', \<lparr> bf_required = True \<rparr>),
                             (''name'', \<lparr> bf_required = False \<rparr>)] \<rparr>"

definition routeCall :: "string \<Rightarrow> string \<Rightarrow> string \<Rightarrow> node" where
  \<comment> \<open>the call expression \<^verbatim>\<open>router.verb('path', controller)\<close>\<close>
  "routeCall verb path controller =
     CallExpression (MemberExpression (Some ''router'') (Some verb))
       [StringLiteral path, Identifier controller]"

definition sampleParse :: "string \<Rightarrow> cached_entry option" where
  \<comment> \<open>a parser that knows one well-formed entry and fails on every other text\<close>
  "sampleParse s =
     (if s = ''{\"data\":1,\"expires\":0}'' then Some \<lparr> ce_data = JNumber 1, ce_expires = Some 0 \<rparr>
      else None)"

definition sampleCache :: cache_manager where
  \<comment> \<open>a cache directory with one truncated file, written one second before the read\<close>
  "sampleCache =
     \<lparr> cm_cacheDir = ''.audit-cache'', cm_maxAge = 86400, cm_memoryCache = [],
       cm_files = [(''.audit-cache/files/k1.json'', \<lparr> cf_mtime = 1000, cf_content = ''{\"da'' \<rparr>)],
       cm_stats = \<lparr> st_hits = 0, st_misses = 0, st_writes = 0, st_deletes = 0 \<rparr> \<rparr>"

definition keyedByName :: "(string \<times> ds_component) list \<Rightarrow> bool" where
  \<comment> \<open>every entry of the design-system map is filed under its component's name, as
      \<^verbatim>\<open>this.components.set(component.name, ...)\<close> of the design-system analyzer files it\<close>
  "keyedByName ds = (\<forall>(name, c) \<in> set ds. dc_name c = name)"

definition sampleDS :: "(string \<times> ds_component) list" where
  "sampleDS =
     [(''Button'', \<lparr> dc_name = ''Button'', dc_file = ''ds/Button.jsx'', dc_line = 1,
                     dc_props = [], dc_used = False, dc_usedIn = [] \<rparr>),
      (''Card'', \<lparr> dc_name = ''Card'', dc_file = ''ds/Card.jsx'', dc_line = 2,
                   dc_props = [], dc_used = False, dc_usedIn = [] \<rparr>)]"

definition sampleFrontend :: "(string \<times> fe_component) list" where
  "sampleFrontend =
     [(''src/Panel.jsx:Panel'', \<lparr> fc_name = ''Panel'', fc_file = ''src/Panel.jsx'' \<rparr>)]"


definition routeView :: "string \<times> endpoint \<Rightarrow> string \<times> string option \<times> nat" where
  \<comment> \<open>an entry of the endpoint map by its key, controller and line\<close>
  "routeView p = (fst p, e_controller (snd p), e_line (snd p))"

definition routesOf :: "(string \<times> endpoint) list \<Rightarrow> endpoint list" where
  \<comment> \<open>the \<open>routes\<close> list returned next to an endpoint map\<close>
  "routesOf m = br_routes (backendResult m)"

definition endpointIssueView :: "issue \<Rightarrow> issue_type \<times> string \<times> string option" where
  "endpointIssueView i = (i_type i, i_severity i, i_endpoint i)"

definition componentIssueView :: "issue \<Rightarrow> issue_type \<times> string option \<times> string option" where
  "componentIssueView i = (i_type i, i_component i, i_dsComponent i)"

definition noBodySchemas :: "(string \<times> endpoint) list \<Rightarrow> bool" where
  \<comment> \<open>no endpoint of the map has a body schema, as in every map the route extractor makes:
      it creates each endpoint with \<^verbatim>\<open>expectedBody: {}\<close> and nothing fills it\<close>
  "noBodySchemas E = (\<forall>(key, e) \<in> set E. e_expectedBody e = [])"

definition runDeclarations :: "route_file list \<Rightarrow> (node \<times> nat \<times> string \<times> string) list" where
  \<comment> \<open>the call expressions a run visits, in order over all its files, each with its line
      and the base path and relative path of its file\<close>
  "runDeclarations files =
     concat (map (\<lambda>file. case rf_ast file of
                            None \<Rightarrow> []
                          | Some ast \<Rightarrow>
                              map (\<lambda>(n, line). (n, line, rf_basePath file, rf_relativePath file)) ast)
               files)"

fun analyzeDeclarations :: "(node \<times> nat \<times> string \<times> string) list \<Rightarrow> (string \<times> endpoint) list \<Rightarrow> error + (string \<times> endpoint) list" where
  \<comment> \<open>the run read off its declarations one by one; equal to \<open>analyzeRoutes\<close> on the files\<close>
  "analyzeDeclarations [] endpoints = Inr endpoints"
| "analyzeDeclarations ((n, line, bp, f) # rest) endpoints =
     (case extractEndpointFromCall n bp f line of
        Inl e \<Rightarrow> Inl e
      | Inr None \<Rightarrow> analyzeDeclarations rest endpoints
      | Inr (Some endpoint) \<Rightarrow>
          analyzeDeclarations rest
            (mapSet (callKey (e_method endpoint) (e_path endpoint)) endpoint endpoints))"

definition overrideRules :: rules where
  \<comment> \<open>rules whose severity map sets \<open>unusedEndpoint\<close> to \<open>HIGH\<close>\<close>
  "overrideRules = sampleRules \<lparr> r_severity := [(''unusedEndpoint'', ''HIGH'')] \<rparr>"

definition declaredRoute :: "string \<Rightarrow> string \<Rightarrow> string \<Rightarrow> string \<Rightarrow> string \<Rightarrow> string \<Rightarrow> nat \<Rightarrow> endpoint" where
  \<comment> \<open>the record of a declaration without middleware and path parameters\<close>
  "declaredRoute method path originalPath basePath file controller line =
     \<lparr> e_method = method, e_path = path, e_originalPath = originalPath,
       e_basePath = basePath, e_file = file, e_line = line, e_middleware = [],
       e_controller = Some controller, e_requiresAuth = False, e_params = [],
       e_queryParams = [], e_expectedBody = [], e_used = False \<rparr>"

definition sampleRouteFiles :: "route_file list" where
  \<comment> \<open>a run over three files: \<open>GET /api/users\<close> is declared in the first and again in the
      last, the second does not parse\<close>
  "sampleRouteFiles =
     [\<lparr> rf_ast = Some [(routeCall ''get'' ''/users'' ''listUsers'', 3),
                       (routeCall ''post'' ''/users'' ''create'', 12)],
        rf_basePath = ''/api'', rf_relativePath = ''routes/users.js'' \<rparr>,
      \<lparr> rf_ast = None, rf_basePath = ''/api/broken'', rf_relativePath = ''routes/broken.js'' \<rparr>,
      \<lparr> rf_ast = Some [(routeCall ''get'' ''/api/users/'' ''listAll'', 7)],
        rf_basePath = [], rf_relativePath = ''routes/index.js'' \<rparr>]"

definition hiddenMethodCall :: call_site where
  \<comment> \<open>a call site whose body has the one field \<^verbatim>\<open>hasOwnProperty\<close>\<close>
  "hiddenMethodCall =
     sampleCall ''POST'' ''/api/signup'' 7 (JObject [(''hasOwnProperty'', JString ''<x>'')])"

definition runIssueView :: "(string \<times> endpoint) list \<times> issue list \<Rightarrow> (issue_type \<times> string \<times> string option) list" where
  \<comment> \<open>the issues a run returns, each by type, severity and endpoint key\<close>
  "runIssueView r = map endpointIssueView (snd r)"

section \<open>Normalization: auxiliary facts\<close>

lemma collapse_hd: "collapseSlashes (a # cs) \<noteq> [] \<and> hd (collapseSlashes (a # cs)) = a"
  by (induction cs arbitrary: a) auto

lemma noDouble_collapse: "noDouble (collapseSlashes s)"
proof (induction s rule: collapseSlashes.induct)
  case (3 a b cs)
  obtain r where r: "collapseSlashes (b # cs) = b # r"
    using collapse_hd [of b cs] by (cases "collapseSlashes (b # cs)") auto
  with 3 show ?case by auto
qed simp_all

lemma collapse_id: "noDouble s \<Longrightarrow> collapseSlashes s = s"
  by (induction s rule: collapseSlashes.induct) auto

lemma noDouble_butlast: "noDouble s \<Longrightarrow> noDouble (butlast s)"
  by (induction s rule: noDouble.induct) (auto split: if_splits)

lemma noDouble_last:
  "noDouble s \<Longrightarrow> length s > 1 \<Longrightarrow> last s = CHR ''/'' \<Longrightarrow> last (butlast s) \<noteq> CHR ''/''"
  by (induction s rule: noDouble.induct) (auto split: if_splits)

lemma endsWith_slash: "endsWith s ''/'' = (s \<noteq> [] \<and> last s = CHR ''/'')"
proof (cases s rule: rev_cases)
  case Nil
  then show ?thesis by (simp add: endsWith_def)
next
  case (snoc ys y)
  then show ?thesis by (simp add: endsWith_def)
qed

lemma ensure_starts: "startsWith (ensureLeadingSlash s) ''/''"
  by (simp add: ensureLeadingSlash_def startsWith_def)

lemma ensure_idem: "startsWith s ''/'' \<Longrightarrow> ensureLeadingSlash s = s"
  by (simp add: ensureLeadingSlash_def)

lemma noDouble_ensure: "noDouble s \<Longrightarrow> noDouble (ensureLeadingSlash s)"
  by (cases s) (auto simp: ensureLeadingSlash_def startsWith_def)

lemma normalForm_normalizePath: "normalForm (normalizePath x)"
proof -
  define n where "n = ensureLeadingSlash (collapseSlashes x)"
  have nd: "noDouble n"
    unfolding n_def by (rule noDouble_ensure) (rule noDouble_collapse)
  have st: "startsWith n ''/''"
    unfolding n_def by (rule ensure_starts)
  have np: "normalizePath x = (if length n > 1 \<and> endsWith n ''/'' then butlast n else n)"
    by (simp add: normalizePath_def n_def Let_def)
  show ?thesis
  proof (cases "length n > 1 \<and> endsWith n ''/''")
    case False
    with np have "normalizePath x = n" by auto
    with False nd st show ?thesis by (simp add: normalForm_def)
  next
    case True
    then have l: "last n = CHR ''/''" by (simp add: endsWith_slash)
    from st obtain t where t: "n = CHR ''/'' # t"
      by (cases n) (auto simp: startsWith_def)
    from True t have tne: "t \<noteq> []" by auto
    have "last (butlast n) \<noteq> CHR ''/''"
      using noDouble_last [OF nd] True l by simp
    moreover have "startsWith (butlast n) ''/''"
      using t tne by (simp add: startsWith_def)
    moreover from np True have "normalizePath x = butlast n" by simp
    ultimately show ?thesis using nd
      by (simp add: normalForm_def noDouble_butlast endsWith_slash)
  qed
qed

lemma normalizePath_normalForm: "normalForm r \<Longrightarrow> normalizePath r = r"
  by (auto simp: normalForm_def normalizePath_def collapse_id ensureLeadingSlash_def Let_def)

lemma set_tl_subset: "set (tl xs) \<subseteq> set xs"
  by (cases xs) auto

lemma set_replaceTemplates: "set (replaceTemplates s) \<subseteq> set s \<union> set paramToken"
proof (induction s rule: replaceTemplates.induct)
  case 1
  show ?case by simp
next
  case (2 c cs)
  show ?case
  proof (cases "c = CHR ''$'' \<and> startsWith cs ''{''
         \<and> takeWhile notClose (tl cs) \<noteq> [] \<and> dropWhile notClose (tl cs) \<noteq> []")
    case True
    have "set (tl (dropWhile notClose (tl cs))) \<subseteq> set cs"
      using set_tl_subset [of "dropWhile notClose (tl cs)"] set_tl_subset [of cs]
        set_dropWhileD [of _ notClose "tl cs"] by blast
    moreover from True 2(1)
    have "set (replaceTemplates (tl (dropWhile notClose (tl cs))))
            \<subseteq> set (tl (dropWhile notClose (tl cs))) \<union> set paramToken" by blast
    moreover from True
    have "replaceTemplates (c # cs) = paramToken @ replaceTemplates (tl (dropWhile notClose (tl cs)))"
      by simp
    ultimately show ?thesis by (simp only: set_append set_simps) blast
  next
    case False
    with 2(2) show ?thesis by auto
  qed
qed

lemma replaceTemplates_param:
  "replaceTemplates (paramToken @ t) = paramToken @ replaceTemplates t"
  by (simp add: paramToken_def)

lemma paramToken_no_close: "CHR ''}'' \<notin> set paramToken"
  by (simp add: paramToken_def)

lemma paramToken_no_question: "CHR ''?'' \<notin> set paramToken"
  by (simp add: paramToken_def)

lemma dropWhile_nil_no_close: "CHR ''}'' \<notin> set s \<Longrightarrow> dropWhile notClose s = []"
  by (induction s) (auto simp: notClose_def)

lemma replaceTemplates_nomatch:
  assumes "takeWhile notClose ds = [] \<or> dropWhile notClose ds = []"
  shows "takeWhile notClose (replaceTemplates ds) = []
           \<or> dropWhile notClose (replaceTemplates ds) = []"
proof (cases "takeWhile notClose ds = []")
  case True
  then show ?thesis
  proof (cases ds)
    case Nil
    then show ?thesis by simp
  next
    case (Cons d ds')
    with True have "d = CHR ''}''" by (auto simp: notClose_def split: if_splits)
    with Cons show ?thesis by (simp add: notClose_def)
  qed
next
  case False
  with assms have "dropWhile notClose ds = []" by simp
  then have "CHR ''}'' \<notin> set ds" by (auto simp: notClose_def)
  then have "CHR ''}'' \<notin> set (replaceTemplates ds)"
    using set_replaceTemplates [of ds] paramToken_no_close by blast
  then show ?thesis by (simp add: dropWhile_nil_no_close)
qed

lemma replaceTemplates_brace:
  "startsWith (replaceTemplates cs) ''{'' \<Longrightarrow>
     \<exists>ds. cs = CHR ''{'' # ds \<and> replaceTemplates cs = CHR ''{'' # replaceTemplates ds"
  by (cases cs) (auto simp: startsWith_def paramToken_def split: if_splits)

lemma replaceTemplates_idem: "replaceTemplates (replaceTemplates s) = replaceTemplates s"
proof (induction s rule: replaceTemplates.induct)
  case 1
  show ?case by simp
next
  case (2 c cs)
  let ?m = "c = CHR ''$'' \<and> startsWith cs ''{''
         \<and> takeWhile notClose (tl cs) \<noteq> [] \<and> dropWhile notClose (tl cs) \<noteq> []"
  show ?case
  proof (cases ?m)
    case True
    then have "replaceTemplates (c # cs)
                 = paramToken @ replaceTemplates (tl (dropWhile notClose (tl cs)))"
      by simp
    moreover from True 2(1)
    have "replaceTemplates (replaceTemplates (tl (dropWhile notClose (tl cs))))
            = replaceTemplates (tl (dropWhile notClose (tl cs)))" by blast
    ultimately show ?thesis by (simp only: replaceTemplates_param)
  next
    case False
    then have r: "replaceTemplates (c # cs) = c # replaceTemplates cs" by auto
    from False 2(2) have ih: "replaceTemplates (replaceTemplates cs) = replaceTemplates cs"
      by blast
    have "\<not> (c = CHR ''$'' \<and> startsWith (replaceTemplates cs) ''{''
         \<and> takeWhile notClose (tl (replaceTemplates cs)) \<noteq> []
         \<and> dropWhile notClose (tl (replaceTemplates cs)) \<noteq> [])"
    proof
      assume a: "c = CHR ''$'' \<and> startsWith (replaceTemplates cs) ''{''
         \<and> takeWhile notClose (tl (replaceTemplates cs)) \<noteq> []
         \<and> dropWhile notClose (tl (replaceTemplates cs)) \<noteq> []"
      then obtain ds where ds: "cs = CHR ''{'' # ds"
          "replaceTemplates cs = CHR ''{'' # replaceTemplates ds"
        using replaceTemplates_brace by blast
      with False a have "takeWhile notClose ds = [] \<or> dropWhile notClose ds = []"
        by (auto simp: startsWith_def)
      from replaceTemplates_nomatch [OF this] a ds show False by simp
    qed
    then have "replaceTemplates (c # replaceTemplates cs)
                 = c # replaceTemplates (replaceTemplates cs)"
      by auto
    with r ih show ?thesis by simp
  qed
qed

lemma dropQuery_no_question: "CHR ''?'' \<notin> set (dropQuery s)"
  by (induction s) (auto simp: dropQuery_def notQuestion_def)

lemma dropQuery_id: "CHR ''?'' \<notin> set s \<Longrightarrow> dropQuery s = s"
  by (induction s) (auto simp: dropQuery_def notQuestion_def)

lemma cleanEndpoint_no_question: "CHR ''?'' \<notin> set (cleanEndpoint e)"
proof -
  have "CHR ''?'' \<notin> set (replaceTemplates (dropQuery (stripProtocolHost e)))"
    using set_replaceTemplates [of "dropQuery (stripProtocolHost e)"]
      dropQuery_no_question [of "stripProtocolHost e"] paramToken_no_question by blast
  then show ?thesis by (auto simp: cleanEndpoint_def ensureLeadingSlash_def)
qed

lemma stripProtocolHost_slash: "startsWith s ''/'' \<Longrightarrow> stripProtocolHost s = s"
  by (cases s) (auto simp: stripProtocolHost_def stripPrefix_def startsWith_def)

lemma replaceTemplates_ensure:
  "replaceTemplates (ensureLeadingSlash (replaceTemplates s))
     = ensureLeadingSlash (replaceTemplates s)"
  by (simp add: ensureLeadingSlash_def replaceTemplates_idem)

lemma cleanEndpoint_fixed: "cleanEndpoint (cleanEndpoint x) = cleanEndpoint x"
proof (cases "x = []")
  case True
  then show ?thesis by (simp add: cleanEndpoint_def)
next
  case False
  define r where "r = ensureLeadingSlash (replaceTemplates (dropQuery (stripProtocolHost x)))"
  have cx: "cleanEndpoint x = r" using False by (simp add: cleanEndpoint_def r_def)
  have st: "startsWith r ''/''" unfolding r_def by (rule ensure_starts)
  then have ne: "r \<noteq> []" by (auto simp: startsWith_def)
  have nq: "CHR ''?'' \<notin> set r" using cleanEndpoint_no_question [of x] cx by simp
  have rt: "replaceTemplates r = r" unfolding r_def by (rule replaceTemplates_ensure)
  have "cleanEndpoint r = ensureLeadingSlash (replaceTemplates (dropQuery (stripProtocolHost r)))"
    using ne by (simp add: cleanEndpoint_def)
  also have "\<dots> = r"
    by (simp add: stripProtocolHost_slash [OF st] dropQuery_id [OF nq] rt ensure_idem [OF st])
  finally show ?thesis using cx by simp
qed

lemma replaceTemplates_id: "\<not> includesStr s ''${'' \<Longrightarrow> replaceTemplates s = s"
proof (induction s rule: replaceTemplates.induct)
  case 1
  show ?case by simp
next
  case (2 c cs)
  from 2(3) have a: "\<not> startsWith (c # cs) ''${''" and b: "\<not> includesStr cs ''${''"
    by auto
  from a have "\<not> (c = CHR ''$'' \<and> startsWith cs ''{'')"
    by (cases cs) (auto simp: startsWith_def)
  with 2(2) b show ?case by auto
qed

lemma noDouble_includes: "noDouble s = (\<not> includesStr s ''//'')"
  by (induction s rule: noDouble.induct) (auto simp: startsWith_def)

lemma stripProtocolHost_noDouble: "noDouble s \<Longrightarrow> stripProtocolHost s = s"
proof -
  assume nd: "noDouble s"
  have 1: "\<not> startsWith s ''https://''"
  proof
    assume "startsWith s ''https://''"
    then obtain t where "s = ''https://'' @ t"
      unfolding startsWith_def by (metis append_take_drop_id)
    with nd show False by simp
  qed
  have 2: "\<not> startsWith s ''http://''"
  proof
    assume "startsWith s ''http://''"
    then obtain t where "s = ''http://'' @ t"
      unfolding startsWith_def by (metis append_take_drop_id)
    with nd show False by simp
  qed
  from 1 2 show ?thesis by (simp add: stripProtocolHost_def stripPrefix_def)
qed

section \<open>The normalizers compared (C1)\<close>

text \<open>
  C1, as the claim states it, fails: the route extractor's \<^verbatim>\<open>normalizePath\<close> and the
  call-site extractor's \<^verbatim>\<open>cleanEndpoint\<close> are different functions. On a path with a
  repeated and a trailing slash only \<^verbatim>\<open>normalizePath\<close> collapses and strips; on a URL with
  a host, an interpolation and a query string only \<^verbatim>\<open>cleanEndpoint\<close> removes them.
\<close>

theorem normalizers_differ:
  "normalizePath ''/api//users/'' = ''/api/users''
   \<and> cleanEndpoint ''/api//users/'' = ''/api//users/''
   \<and> normalizePath ''http://h/users/${id}?a=1'' = ''/http:/h/users/${id}?a=1''
   \<and> cleanEndpoint ''http://h/users/${id}?a=1'' = ''/users/:param''"
  by (simp add: normalizePath_def cleanEndpoint_def ensureLeadingSlash_def startsWith_def
      endsWith_def stripProtocolHost_def stripPrefix_def stripHostAfter_def notSlash_def
      dropQuery_def notQuestion_def notClose_def paramToken_def Let_def)

text \<open>
  C1, amended: \<^verbatim>\<open>normalizePath\<close> performs step 4 only and \<^verbatim>\<open>cleanEndpoint\<close> performs steps
  1 to 3 and then only prepends a slash where none leads. The two return the same string,
  the input with a leading slash ensured, for every non-empty input that has no \<open>?\<close>, no
  \<open>${\<close>, no two slashes in a row (hence no scheme and host) and no trailing slash other
  than the root path.
\<close>

theorem normalizers_agree_on_plain_paths:
  assumes "x \<noteq> []" and "CHR ''?'' \<notin> set x" and "\<not> includesStr x ''${''"
    and "\<not> includesStr x ''//''" and "\<not> (length x > 1 \<and> endsWith x ''/'')"
  shows "cleanEndpoint x = normalizePath x \<and> normalizePath x = ensureLeadingSlash x"
proof -
  have nd: "noDouble x" using assms(4) by (simp add: noDouble_includes)
  have c: "cleanEndpoint x = ensureLeadingSlash x"
    using assms(1) by (simp add: cleanEndpoint_def stripProtocolHost_noDouble [OF nd]
        dropQuery_id [OF assms(2)] replaceTemplates_id [OF assms(3)])
  have e5: "\<not> (length (ensureLeadingSlash x) > 1 \<and> endsWith (ensureLeadingSlash x) ''/'')"
  proof (cases "startsWith x ''/''")
    case True
    with assms(5) show ?thesis by (simp add: ensureLeadingSlash_def)
  next
    case False
    with assms(1) have "x \<noteq> ''/''" by (auto simp: startsWith_def)
    with assms(1) assms(5) have "last x \<noteq> CHR ''/''"
      by (cases x rule: rev_cases) (auto simp: endsWith_slash)
    with False assms(1) show ?thesis by (simp add: ensureLeadingSlash_def endsWith_slash)
  qed
  have "normalizePath x = ensureLeadingSlash x"
    using e5 by (auto simp add: normalizePath_def collapse_id [OF nd] Let_def)
  with c show ?thesis by simp
qed

theorem normalizers_agree_witness:
  "''api/users/:id'' \<noteq> [] \<and> CHR ''?'' \<notin> set ''api/users/:id''
   \<and> \<not> includesStr ''api/users/:id'' ''${'' \<and> \<not> includesStr ''api/users/:id'' ''//''
   \<and> \<not> (length ''api/users/:id'' > 1 \<and> endsWith ''api/users/:id'' ''/'')
   \<and> cleanEndpoint ''api/users/:id'' = normalizePath ''api/users/:id''
   \<and> normalizePath ''api/users/:id'' = ''/api/users/:id''"
proof -
  have h1: "''api/users/:id'' \<noteq> []" by simp
  have h2: "CHR ''?'' \<notin> set ''api/users/:id''" by simp
  have h3: "\<not> includesStr ''api/users/:id'' ''${''" by (simp add: startsWith_def)
  have h4: "\<not> includesStr ''api/users/:id'' ''//''" by (simp add: startsWith_def)
  have h5: "\<not> (length ''api/users/:id'' > 1 \<and> endsWith ''api/users/:id'' ''/'')"
    by (simp add: endsWith_def)
  from normalizers_agree_on_plain_paths [OF h1 h2 h3 h4 h5] h1 h2 h3 h4 h5
  show ?thesis by (simp add: ensureLeadingSlash_def startsWith_def)
qed

section \<open>Idempotence (C3)\<close>

text \<open>
  C3: each of the two normalization functions is idempotent: applying
  \<^verbatim>\<open>BackendAnalyzer.normalizePath\<close> to its own result, or \<^verbatim>\<open>FrontendAnalyzer.cleanEndpoint\<close>
  to its own result, changes nothing, for every input string.
\<close>

theorem normalization_idempotent:
  "normalizePath (normalizePath x) = normalizePath x
   \<and> cleanEndpoint (cleanEndpoint x) = cleanEndpoint x"
  using normalizePath_normalForm [OF normalForm_normalizePath] cleanEndpoint_fixed
  by simp

theorem normalization_idempotent_witness:
  "normalizePath (normalizePath ''api//users/'') = ''/api/users''
   \<and> cleanEndpoint (cleanEndpoint ''https://h.io/u/${id}/?q=${x}'') = ''/u/:param/''"
proof -
  have a: "normalizePath ''api//users/'' = ''/api/users''"
    by (simp add: normalizePath_def ensureLeadingSlash_def startsWith_def endsWith_def Let_def)
  have b: "cleanEndpoint ''https://h.io/u/${id}/?q=${x}'' = ''/u/:param/''"
    by (simp add: cleanEndpoint_def ensureLeadingSlash_def startsWith_def
        stripProtocolHost_def stripPrefix_def stripHostAfter_def notSlash_def
        dropQuery_def notQuestion_def notClose_def paramToken_def)
  from normalization_idempotent [of "''api//users/''"]
    normalization_idempotent [of "''https://h.io/u/${id}/?q=${x}''"] a b
  show ?thesis by simp
qed

section \<open>Query parameters of call sites (C10)\<close>

lemma extractQueryParams_clean: "extractQueryParams (cleanEndpoint e) = []"
  using cleanEndpoint_no_question [of e] by (simp add: extractQueryParams_def)

lemma finishCall_query:
  "finishCall call method endpoint data hasAuth = Some c \<Longrightarrow>
     cs_queryParams c = [] \<and> CHR ''?'' \<notin> set (cs_endpoint c)"
  using cleanEndpoint_no_question
  by (auto simp: finishCall_def Let_def extractQueryParams_clean
      split: option.splits if_splits)

lemma normalizeAPICall_query:
  assumes "normalizeAPICall call = Some c"
  shows "cs_queryParams c = [] \<and> CHR ''?'' \<notin> set (cs_endpoint c)"
proof (cases "ac_type call")
  case Fetch
  with assms show ?thesis
    by (auto simp: normalizeAPICall_def Let_def split: sum.splits dest: finishCall_query)
next
  case Axios
  with assms show ?thesis
    by (auto simp: normalizeAPICall_def Let_def split: sum.splits dest: finishCall_query)
next
  case Api
  with assms show ?thesis
    by (auto simp: normalizeAPICall_def Let_def split: sum.splits dest: finishCall_query)
next
  case Request
  with assms show ?thesis
    by (auto simp: normalizeAPICall_def Let_def dest: finishCall_query)
next
  case Service
  with assms show ?thesis
    by (auto simp: normalizeAPICall_def Let_def split: option.splits dest: finishCall_query)
qed

lemma set_mapSet: "set (mapSet k v m) \<subseteq> insert (k, v) (set m)"
  by (induction m) auto

lemma noQueryRecorded_mapPush:
  assumes "noQueryRecorded m"
    and "cs_queryParams c = [] \<and> CHR ''?'' \<notin> set (cs_endpoint c)"
  shows "noQueryRecorded (mapPush k c m)"
proof (cases "map_of m k")
  case None
  then have "set (mapPush k c m) \<subseteq> insert (k, [c]) (set m)"
    by (simp add: mapPush_def set_mapSet)
  with assms show ?thesis unfolding noQueryRecorded_def by fastforce
next
  case (Some vs)
  then have in_m: "(k, vs) \<in> set m" by (rule map_of_SomeD)
  from Some have "set (mapPush k c m) \<subseteq> insert (k, vs @ [c]) (set m)"
    by (simp add: mapPush_def set_mapSet)
  moreover from assms(1) in_m
  have "\<forall>c' \<in> set vs. cs_queryParams c' = [] \<and> CHR ''?'' \<notin> set (cs_endpoint c')"
    unfolding noQueryRecorded_def by fastforce
  ultimately show ?thesis using assms unfolding noQueryRecorded_def by fastforce
qed

lemma noQueryRecorded_recordCalls:
  "noQueryRecorded m \<Longrightarrow> noQueryRecorded (recordCalls calls m)"
proof (induction calls arbitrary: m)
  case Nil
  then show ?case by simp
next
  case (Cons call calls)
  show ?case
  proof (cases "normalizeAPICall call")
    case None
    with Cons show ?thesis by simp
  next
    case (Some c)
    from normalizeAPICall_query [OF Some] Cons.prems
    have "noQueryRecorded (mapPush (callKey (cs_method c) (cs_endpoint c)) c m)"
      by (intro noQueryRecorded_mapPush) auto
    with Some Cons.IH show ?thesis by simp
  qed
qed

text \<open>
  C10: every call-site record the call-site extractor puts into its map has an empty
  \<open>queryParams\<close> list, and its endpoint has no \<open>?\<close>: \<^verbatim>\<open>cleanEndpoint\<close> has cut the URL at
  the first \<open>?\<close> before \<^verbatim>\<open>extractQueryParams\<close> reads it. This holds for the map after any
  number of files, started from the empty map.
\<close>

theorem call_sites_record_no_query_params:
  "\<forall>(key, calls) \<in> set (extractAPICalls ast file []). \<forall>c \<in> set calls.
     cs_queryParams c = [] \<and> CHR ''?'' \<notin> set (cs_endpoint c)"
proof -
  have "noQueryRecorded []" by (simp add: noQueryRecorded_def)
  then have "noQueryRecorded (extractAPICalls ast file [])"
    unfolding extractAPICalls_def by (rule noQueryRecorded_recordCalls)
  then show ?thesis by (simp add: noQueryRecorded_def)
qed

theorem call_sites_record_no_query_params_witness:
  "cs_originalUrl (hd (snd (hd (extractAPICalls
       [(CallExpression (MemberExpression (Some ''axios'') (Some ''get''))
           [StringLiteral ''/api/users?page=2&limit=5''], 12)] ''src/users.js'' []))))
     = Some ''/api/users?page=2&limit=5''
   \<and> cs_queryParams (hd (snd (hd (extractAPICalls
       [(CallExpression (MemberExpression (Some ''axios'') (Some ''get''))
           [StringLiteral ''/api/users?page=2&limit=5''], 12)] ''src/users.js'' [])))) = []"
proof -
  let ?ast = "[(CallExpression (MemberExpression (Some ''axios'') (Some ''get''))
           [StringLiteral ''/api/users?page=2&limit=5''], 12)]"
  let ?m = "extractAPICalls ?ast ''src/users.js'' []"
  have ev: "map fst ?m = [''GET /api/users''] \<and> map (map cs_originalUrl \<circ> snd) ?m
              = [[Some ''/api/users?page=2&limit=5'']]"
    by code_simp
  then obtain calls where m: "?m = [(''GET /api/users'', calls)]"
    by (cases ?m) auto
  with ev obtain c where c: "calls = [c]" by (cases calls) auto
  from call_sites_record_no_query_params [of ?ast "''src/users.js''"] m c
  have "cs_queryParams c = []" by simp
  with ev m c show ?thesis by simp
qed

section \<open>Reconciliation: missing and unused endpoints (C2, C7)\<close>

lemma map_of_mapSet: "map_of (mapSet k v m) k' = (if k' = k then Some v else map_of m k')"
  by (induction m) auto

lemma issuesOfType_append:
  "issuesOfType t (xs @ ys) = issuesOfType t xs @ issuesOfType t ys"
  by (simp add: issuesOfType_def)

lemma requiredFields_types:
  "requiredFields e c rs fs = Inr issues \<Longrightarrow> i \<in> set issues \<Longrightarrow> i_type i = MISSING_BODY_FIELD"
proof (induction fs arbitrary: issues)
  case Nil
  then show ?case by simp
next
  case (Cons p fs)
  obtain field bf where p: "p = (field, bf)" by (cases p)
  from Cons.prems p Cons.IH show ?case
    by (auto simp: missingBodyFieldIssue_def newIssue_def split: if_splits sum.splits)
qed

lemma extraFields_types:
  "extraFields e c keys = Inr issues \<Longrightarrow> i \<in> set issues \<Longrightarrow> i_type i = EXTRA_BODY_FIELD"
proof (induction keys arbitrary: issues)
  case Nil
  then show ?case by simp
next
  case (Cons k keys)
  from Cons.prems Cons.IH show ?case
    by (auto simp: extraBodyFieldIssue_def newIssue_def split: if_splits sum.splits)
qed

lemma requestBody_types:
  "validateRequestBody e c rs = Inr issues \<Longrightarrow> i \<in> set issues \<Longrightarrow>
     i_type i \<in> {MISSING_BODY_FIELD, EXTRA_BODY_FIELD}"
  by (auto simp: validateRequestBody_def split: if_splits sum.splits
      dest: requiredFields_types extraFields_types)

lemma usage_types:
  "validateEndpointUsage e c rs = Inr issues \<Longrightarrow> i \<in> set issues \<Longrightarrow>
     i_type i \<in> {MISSING_URL_PARAM, EXTRA_URL_PARAM, MISSING_BODY_FIELD, EXTRA_BODY_FIELD,
                  MISSING_QUERY_PARAM}"
  by (auto simp: validateEndpointUsage_def validateURLParams_def validateQueryParams_def
      newIssue_def split: sum.splits dest: requestBody_types)

lemma usage_no_missing:
  assumes "validateEndpointUsage e c rs = Inr issues"
  shows "issuesOfType MISSING_BACKEND_ENDPOINT issues = []"
  unfolding issuesOfType_def filter_empty_conv
proof
  fix i
  assume "i \<in> set issues"
  from usage_types [OF assms this] show "i_type i \<noteq> MISSING_BACKEND_ENDPOINT" by auto
qed

lemma usage_no_unused:
  assumes "validateEndpointUsage e c rs = Inr issues"
  shows "issuesOfType UNUSED_ENDPOINT issues = []"
  unfolding issuesOfType_def filter_empty_conv
proof
  fix i
  assume "i \<in> set issues"
  from usage_types [OF assms this] show "i_type i \<noteq> UNUSED_ENDPOINT" by auto
qed

lemma missing_issue_type [simp]:
  "i_type (missingEndpointIssue rs key call) = MISSING_BACKEND_ENDPOINT"
  by (simp add: missingEndpointIssue_def newIssue_def)

lemma unused_issue_type [simp]:
  "i_type (unusedEndpointIssue rs key e) = UNUSED_ENDPOINT"
  by (simp add: unusedEndpointIssue_def newIssue_def)

lemma validateCalls_missing:
  "validateCalls rs key calls (E, is) = Inr (E', is') \<Longrightarrow>
   issuesOfType MISSING_BACKEND_ENDPOINT is'
     = issuesOfType MISSING_BACKEND_ENDPOINT is
       @ (if mapGet E key = None then map (missingEndpointIssue rs key) calls else [])
   \<and> (\<forall>k. (mapGet E' k = None) = (mapGet E k = None))"
proof (induction calls arbitrary: E "is")
  case Nil
  then show ?case by simp
next
  case (Cons call calls)
  show ?case
  proof (cases "mapGet E key")
    case None
    with Cons.prems
    have "validateCalls rs key calls (E, is @ [missingEndpointIssue rs key call]) = Inr (E', is')"
      by simp
    from Cons.IH [OF this] None show ?thesis
      by (simp add: issuesOfType_append) (simp add: issuesOfType_def)
  next
    case (Some e)
    let ?e = "e \<lparr> e_used := True \<rparr>"
    let ?E = "mapSet key ?e E"
    from Some Cons.prems obtain usage where u: "validateEndpointUsage ?e call rs = Inr usage"
        and run: "validateCalls rs key calls (?E, is @ usage) = Inr (E', is')"
      by (auto simp: Let_def split: sum.splits)
    have k: "\<forall>k. (mapGet ?E k = None) = (mapGet E k = None)"
      using Some by (simp add: mapGet_def map_of_mapSet)
    then have "mapGet ?E key \<noteq> None" using Some by simp
    with Cons.IH [OF run] Some k usage_no_missing [OF u]
    show ?thesis by (simp add: issuesOfType_append)
  qed
qed

lemma validateAllCalls_missing:
  "validateAllCalls rs C (E, is) = Inr (E', is') \<Longrightarrow>
   issuesOfType MISSING_BACKEND_ENDPOINT is'
     = issuesOfType MISSING_BACKEND_ENDPOINT is
       @ map (\<lambda>(key, call). missingEndpointIssue rs key call)
           (filter (\<lambda>(key, call). mapGet E key = None) (callRecords C))"
proof (induction C arbitrary: E "is")
  case Nil
  then show ?case by (simp add: callRecords_def)
next
  case (Cons kc C)
  obtain key calls where kc: "kc = (key, calls)" by (cases kc)
  from Cons.prems kc obtain E1 is1 where st: "validateCalls rs key calls (E, is) = Inr (E1, is1)"
      and run: "validateAllCalls rs C (E1, is1) = Inr (E', is')"
    by (auto split: sum.splits)
  from validateCalls_missing [OF st]
  have a: "issuesOfType MISSING_BACKEND_ENDPOINT is1
             = issuesOfType MISSING_BACKEND_ENDPOINT is
               @ (if mapGet E key = None then map (missingEndpointIssue rs key) calls else [])"
    and b: "\<forall>k. (mapGet E1 k = None) = (mapGet E k = None)" by simp_all
  have c: "map (\<lambda>(key, call). missingEndpointIssue rs key call)
             (filter (\<lambda>(key, call). mapGet E key = None) (map (\<lambda>call. (key, call)) calls))
           = (if mapGet E key = None then map (missingEndpointIssue rs key) calls else [])"
    by (induction calls) auto
  from Cons.IH [OF run] a b c kc show ?case
    by (simp add: callRecords_def)
qed

lemma unusedEndpoints_types:
  "issuesOfType MISSING_BACKEND_ENDPOINT (unusedEndpoints rs E) = []
   \<and> issuesOfType UNUSED_ENDPOINT (unusedEndpoints rs E) = unusedEndpoints rs E"
  by (induction E) (auto simp: unusedEndpoints_def issuesOfType_def)

lemma mapGet_mem: "mapGet E k = Some e \<Longrightarrow> (k, e) \<in> set E"
  unfolding mapGet_def by (rule map_of_SomeD)

lemma extraFields_no_schema:
  "e_expectedBody e = [] \<Longrightarrow> \<exists>issues. extraFields e c keys = Inr issues"
  by (induction keys) (auto simp: schemaHasOwnProperty_def)

lemma usage_no_schema:
  "e_expectedBody e = [] \<Longrightarrow> \<exists>issues. validateEndpointUsage e c rs = Inr issues"
  using extraFields_no_schema [of e c "objectKeys (cs_data c)"]
  by (auto simp: validateEndpointUsage_def validateRequestBody_def)

lemma noBodySchemas_mark:
  assumes "noBodySchemas E" and "mapGet E key = Some e"
  shows "noBodySchemas (mapSet key (e \<lparr> e_used := True \<rparr>) E)"
proof -
  from assms have "e_expectedBody e = []"
    by (auto simp: noBodySchemas_def dest: mapGet_mem)
  moreover have "set (mapSet key (e \<lparr> e_used := True \<rparr>) E)
                   \<subseteq> insert (key, e \<lparr> e_used := True \<rparr>) (set E)"
    by (rule set_mapSet)
  ultimately show ?thesis using assms(1) unfolding noBodySchemas_def by fastforce
qed

lemma validateCalls_returns:
  "noBodySchemas E \<Longrightarrow>
     \<exists>E' is'. validateCalls rs key calls (E, is) = Inr (E', is') \<and> noBodySchemas E'"
proof (induction calls arbitrary: E "is")
  case Nil
  then show ?case by simp
next
  case (Cons call calls)
  show ?case
  proof (cases "mapGet E key")
    case None
    with Cons.IH [OF Cons.prems, of "is @ [missingEndpointIssue rs key call]"]
    show ?thesis by simp
  next
    case (Some e)
    let ?e = "e \<lparr> e_used := True \<rparr>"
    from Cons.prems Some have "e_expectedBody ?e = []"
      by (auto simp: noBodySchemas_def dest: mapGet_mem)
    from usage_no_schema [OF this] obtain usage where
      u: "validateEndpointUsage ?e call rs = Inr usage" by blast
    from Cons.IH [OF noBodySchemas_mark [OF Cons.prems Some], of "is @ usage"] Some u
    show ?thesis by (simp add: Let_def)
  qed
qed

lemma validateAllCalls_returns:
  "noBodySchemas E \<Longrightarrow> \<exists>r. validateAllCalls rs C (E, is) = Inr r"
proof (induction C arbitrary: E "is")
  case Nil
  then show ?case by simp
next
  case (Cons kc C)
  obtain key calls where kc: "kc = (key, calls)" by (cases kc)
  from validateCalls_returns [OF Cons.prems, of rs key calls "is"]
  obtain E1 is1 where st: "validateCalls rs key calls (E, is) = Inr (E1, is1)"
      and inv: "noBodySchemas E1" by blast
  from Cons.IH [OF inv, of is1] st kc show ?case by simp
qed

lemma validate_returns: "noBodySchemas E \<Longrightarrow> \<exists>r. validate rs E C = Inr r"
  using validateAllCalls_returns [of E rs C "[]"]
  by (auto simp: validate_def split: sum.splits prod.splits)

text \<open>
  C2: a reconciliation run that returns emits exactly one \<open>MISSING_BACKEND_ENDPOINT\<close> issue
  per call-site record whose key has no entry in the endpoint map, in the order of the
  records, each naming the key and the call site's file and line, and none for a call
  site whose key is present. On an endpoint map as the route extractor makes it (no
  endpoint has a body schema) the run returns.
\<close>

theorem missing_endpoint_per_unmatched_call:
  "(\<forall>E' issues. validate rs E C = Inr (E', issues) \<longrightarrow>
      issuesOfType MISSING_BACKEND_ENDPOINT issues
        = map (\<lambda>(key, call). missingEndpointIssue rs key call)
            (filter (\<lambda>(key, call). mapGet E key = None) (callRecords C)))
   \<and> (noBodySchemas E \<longrightarrow> (\<exists>r. validate rs E C = Inr r))"
proof -
  have "issuesOfType MISSING_BACKEND_ENDPOINT issues
        = map (\<lambda>(key, call). missingEndpointIssue rs key call)
            (filter (\<lambda>(key, call). mapGet E key = None) (callRecords C))"
    if r: "validate rs E C = Inr (E', issues)" for E' issues
  proof -
    from r obtain is' where st: "validateAllCalls rs C (E, []) = Inr (E', is')"
        and i: "issues = is' @ unusedEndpoints rs E'"
      by (auto simp: validate_def split: sum.splits)
    from validateAllCalls_missing [OF st]
    have "issuesOfType MISSING_BACKEND_ENDPOINT is'
          = map (\<lambda>(key, call). missingEndpointIssue rs key call)
              (filter (\<lambda>(key, call). mapGet E key = None) (callRecords C))"
      by (simp add: issuesOfType_def)
    with i show ?thesis by (simp add: issuesOfType_append unusedEndpoints_types)
  qed
  with validate_returns [of E rs C] show ?thesis by blast
qed

theorem missing_endpoint_per_unmatched_call_witness:
  "noBodySchemas sampleEndpoints
   \<and> (\<exists>E' issues. validate sampleRules sampleEndpoints sampleCalls = Inr (E', issues)
        \<and> map i_line (issuesOfType MISSING_BACKEND_ENDPOINT issues) = [Some 20, Some 31]
        \<and> map i_endpoint (issuesOfType MISSING_BACKEND_ENDPOINT issues)
          = [Some ''POST /api/orders'', Some ''POST /api/orders''])"
proof -
  note main = missing_endpoint_per_unmatched_call [of sampleRules sampleEndpoints sampleCalls]
  have made: "noBodySchemas sampleEndpoints"
    by (simp add: noBodySchemas_def sampleEndpoints_def sampleEndpoint_def)
  with main obtain E' issues where
    r: "validate sampleRules sampleEndpoints sampleCalls = Inr (E', issues)"
    by (metis surj_pair)
  with main have eq: "issuesOfType MISSING_BACKEND_ENDPOINT issues
        = map (\<lambda>(key, call). missingEndpointIssue sampleRules key call)
            (filter (\<lambda>(key, call). mapGet sampleEndpoints key = None) (callRecords sampleCalls))"
    by blast
  have "map i_line (map (\<lambda>(key, call). missingEndpointIssue sampleRules key call)
            (filter (\<lambda>(key, call). mapGet sampleEndpoints key = None) (callRecords sampleCalls)))
          = [Some 20, Some 31]
        \<and> map i_endpoint (map (\<lambda>(key, call). missingEndpointIssue sampleRules key call)
            (filter (\<lambda>(key, call). mapGet sampleEndpoints key = None) (callRecords sampleCalls)))
          = [Some ''POST /api/orders'', Some ''POST /api/orders'']"
    by code_simp
  with eq r made show ?thesis by simp
qed

lemma validateCalls_no_unused:
  "validateCalls rs key calls (E, is) = Inr (E', is') \<Longrightarrow>
     issuesOfType UNUSED_ENDPOINT is' = issuesOfType UNUSED_ENDPOINT is"
proof (induction calls arbitrary: E "is")
  case Nil
  then show ?case by simp
next
  case (Cons call calls)
  show ?case
  proof (cases "mapGet E key")
    case None
    with Cons.prems
    have "validateCalls rs key calls (E, is @ [missingEndpointIssue rs key call]) = Inr (E', is')"
      by simp
    from Cons.IH [OF this] show ?thesis
      by (simp add: issuesOfType_append) (simp add: issuesOfType_def)
  next
    case (Some e)
    let ?e = "e \<lparr> e_used := True \<rparr>"
    from Some Cons.prems obtain usage where u: "validateEndpointUsage ?e call rs = Inr usage"
        and run: "validateCalls rs key calls (mapSet key ?e E, is @ usage) = Inr (E', is')"
      by (auto simp: Let_def split: sum.splits)
    from Cons.IH [OF run] usage_no_unused [OF u] show ?thesis
      by (simp add: issuesOfType_append)
  qed
qed

lemma validateAllCalls_no_unused:
  "validateAllCalls rs C (E, is) = Inr (E', is') \<Longrightarrow>
     issuesOfType UNUSED_ENDPOINT is' = issuesOfType UNUSED_ENDPOINT is"
proof (induction C arbitrary: E "is")
  case Nil
  then show ?case by simp
next
  case (Cons kc C)
  obtain key calls where kc: "kc = (key, calls)" by (cases kc)
  from Cons.prems kc obtain E1 is1 where st: "validateCalls rs key calls (E, is) = Inr (E1, is1)"
      and run: "validateAllCalls rs C (E1, is1) = Inr (E', is')"
    by (auto split: sum.splits)
  from validateCalls_no_unused [OF st] Cons.IH [OF run] show ?case by simp
qed

lemma mapSet_twice: "mapSet k v (mapSet k w m) = mapSet k v m"
  by (induction m) auto

lemma validateCalls_marks:
  "validateCalls rs key calls (E, is) = Inr (E', is') \<Longrightarrow>
   E' = (if calls = [] then E
         else (case mapGet E key of
                 None \<Rightarrow> E
               | Some e \<Rightarrow> mapSet key (e \<lparr> e_used := True \<rparr>) E))"
proof (induction calls arbitrary: E "is")
  case Nil
  then show ?case by simp
next
  case (Cons call calls)
  show ?case
  proof (cases "mapGet E key")
    case None
    with Cons.prems
    have "validateCalls rs key calls (E, is @ [missingEndpointIssue rs key call]) = Inr (E', is')"
      by simp
    from Cons.IH [OF this] None show ?thesis by simp
  next
    case (Some e)
    let ?e = "e \<lparr> e_used := True \<rparr>"
    from Some Cons.prems obtain usage where
      run: "validateCalls rs key calls (mapSet key ?e E, is @ usage) = Inr (E', is')"
      by (auto simp: Let_def split: sum.splits)
    have "mapGet (mapSet key ?e E) key = Some ?e"
      by (simp add: mapGet_def map_of_mapSet)
    with Cons.IH [OF run] Some show ?thesis by (simp add: mapSet_twice)
  qed
qed

lemma used_after_validateAllCalls:
  "validateAllCalls rs C (E, is) = Inr (E', is') \<Longrightarrow>
   map_option e_used (mapGet E' k)
     = map_option (\<lambda>e. e_used e \<or> (\<exists>calls. (k, calls) \<in> set C \<and> calls \<noteq> [])) (mapGet E k)"
proof (induction C arbitrary: E "is")
  case Nil
  then show ?case by (cases "mapGet E k") simp_all
next
  case (Cons kc C)
  obtain key calls where kc: "kc = (key, calls)" by (cases kc)
  from Cons.prems kc obtain E1 is1 where st: "validateCalls rs key calls (E, is) = Inr (E1, is1)"
      and run: "validateAllCalls rs C (E1, is1) = Inr (E', is')"
    by (auto split: sum.splits)
  from validateCalls_marks [OF st]
  have E1: "E1 = (if calls = [] then E
        else (case mapGet E key of
                None \<Rightarrow> E
              | Some e \<Rightarrow> mapSet key (e \<lparr> e_used := True \<rparr>) E))" .
  have step: "map_option e_used (mapGet E1 k)
     = map_option (\<lambda>e. e_used e \<or> (k = key \<and> calls \<noteq> [])) (mapGet E k)"
    unfolding E1 by (cases "mapGet E key"; cases "mapGet E k")
      (auto simp: mapGet_def map_of_mapSet)
  have "map_option e_used (mapGet E' k)
          = map_option (\<lambda>e. e_used e \<or> (\<exists>calls. (k, calls) \<in> set C \<and> calls \<noteq> []))
              (mapGet E1 k)"
    by (rule Cons.IH [OF run])
  also have "\<dots> = map_option (\<lambda>e. e_used e \<or> (\<exists>calls. (k, calls) \<in> set (kc # C) \<and> calls \<noteq> []))
              (mapGet E k)"
  proof (cases "mapGet E k")
    case None
    with step show ?thesis by simp
  next
    case (Some e)
    with step obtain e' where e': "mapGet E1 k = Some e'"
        "e_used e' = (e_used e \<or> (k = key \<and> calls \<noteq> []))"
      by (cases "mapGet E1 k") auto
    with Some kc show ?thesis by auto
  qed
  finally show ?case .
qed

text \<open>
  What a run that returns leaves in the endpoint map: an entry is marked used when it
  was so before or when at least one call-site record is filed under its key.
\<close>

lemma used_after_validate:
  "validate rs E C = Inr (E', issues) \<Longrightarrow>
   map_option e_used (mapGet E' k)
     = map_option (\<lambda>e. e_used e \<or> (\<exists>calls. (k, calls) \<in> set C \<and> calls \<noteq> [])) (mapGet E k)"
  by (auto simp: validate_def split: sum.splits dest: used_after_validateAllCalls)

text \<open>
  C7, as the claim states it, fails in the severity: with a severity map that sets
  \<open>unusedEndpoint\<close> to \<open>HIGH\<close>, the run over the sample maps reports the unused endpoint
  \<open>DELETE /api/users/:id\<close> with severity \<open>HIGH\<close>.
\<close>

theorem unused_endpoint_severity_follows_rules:
  "map_sum id runIssueView (validate overrideRules sampleEndpoints sampleCalls)
     = Inr [(MISSING_BACKEND_ENDPOINT, ''CRITICAL'', Some ''POST /api/orders''),
            (MISSING_BACKEND_ENDPOINT, ''CRITICAL'', Some ''POST /api/orders''),
            (UNUSED_ENDPOINT, ''HIGH'', Some ''DELETE /api/users/:id'')]"
  by code_simp

text \<open>
  C7, amended: after a run has processed all call sites, the \<open>UNUSED_ENDPOINT\<close> issues it
  returns are exactly one per entry of the endpoint map whose \<open>used\<close> flag is still false,
  in map order, each naming the entry's key, and there is none for an entry whose flag
  is true. Their severity is the one the severity map of the rules gives for
  \<open>unusedEndpoint\<close>, and \<open>LOW\<close> when it gives none. On an endpoint map as the route
  extractor makes it the run returns.
\<close>

theorem unused_endpoint_per_unused_entry:
  "(\<forall>E' issues. validate rs E C = Inr (E', issues) \<longrightarrow>
      issuesOfType UNUSED_ENDPOINT issues
        = map (\<lambda>(key, e). unusedEndpointIssue rs key e) (filter (\<lambda>(key, e). \<not> e_used e) E')
      \<and> (\<forall>i \<in> set (issuesOfType UNUSED_ENDPOINT issues).
            i_severity i = severityOr rs ''unusedEndpoint'' ''LOW''))
   \<and> (noBodySchemas E \<longrightarrow> (\<exists>r. validate rs E C = Inr r))"
proof -
  have "issuesOfType UNUSED_ENDPOINT issues
        = map (\<lambda>(key, e). unusedEndpointIssue rs key e) (filter (\<lambda>(key, e). \<not> e_used e) E')
      \<and> (\<forall>i \<in> set (issuesOfType UNUSED_ENDPOINT issues).
            i_severity i = severityOr rs ''unusedEndpoint'' ''LOW'')"
    if r: "validate rs E C = Inr (E', issues)" for E' issues
  proof -
    from r obtain is' where st: "validateAllCalls rs C (E, []) = Inr (E', is')"
        and i: "issues = is' @ unusedEndpoints rs E'"
      by (auto simp: validate_def split: sum.splits)
    from validateAllCalls_no_unused [OF st]
    have "issuesOfType UNUSED_ENDPOINT is' = []" by (simp add: issuesOfType_def)
    with i have a: "issuesOfType UNUSED_ENDPOINT issues = unusedEndpoints rs E'"
      by (simp add: issuesOfType_append unusedEndpoints_types)
    have "\<forall>i \<in> set (unusedEndpoints rs E').
            i_severity i = severityOr rs ''unusedEndpoint'' ''LOW''"
      by (auto simp: unusedEndpoints_def unusedEndpointIssue_def newIssue_def)
    with a show ?thesis by (simp add: unusedEndpoints_def)
  qed
  with validate_returns [of E rs C] show ?thesis by blast
qed

theorem unused_endpoint_per_unused_entry_witness:
  "noBodySchemas sampleEndpoints
   \<and> (\<exists>E' issues. validate overrideRules sampleEndpoints sampleCalls = Inr (E', issues)
        \<and> map routeView E' = [(''GET /api/users'', None, 4), (''DELETE /api/users/:id'', None, 9)]
        \<and> map e_used (map snd E') = [True, False]
        \<and> map i_endpoint (issuesOfType UNUSED_ENDPOINT issues) = [Some ''DELETE /api/users/:id'']
        \<and> map i_severity (issuesOfType UNUSED_ENDPOINT issues) = [''HIGH''])"
proof -
  note main = unused_endpoint_per_unused_entry [of overrideRules sampleEndpoints sampleCalls]
  have made: "noBodySchemas sampleEndpoints"
    by (simp add: noBodySchemas_def sampleEndpoints_def sampleEndpoint_def)
  with main obtain E' issues where
    r: "validate overrideRules sampleEndpoints sampleCalls = Inr (E', issues)"
    by (metis surj_pair)
  have "map_sum id fst (validate overrideRules sampleEndpoints sampleCalls)
          = Inr [(''GET /api/users'', (sampleEndpoint ''GET'' ''/api/users'' 4) \<lparr> e_used := True \<rparr>),
                 (''DELETE /api/users/:id'', sampleEndpoint ''DELETE'' ''/api/users/:id'' 9)]"
    by code_simp
  with r have E': "E' = [(''GET /api/users'', (sampleEndpoint ''GET'' ''/api/users'' 4) \<lparr> e_used := True \<rparr>),
                 (''DELETE /api/users/:id'', sampleEndpoint ''DELETE'' ''/api/users/:id'' 9)]"
    by simp
  from main r have eq: "issuesOfType UNUSED_ENDPOINT issues
        = map (\<lambda>(key, e). unusedEndpointIssue overrideRules key e)
            (filter (\<lambda>(key, e). \<not> e_used e) E')"
    and sev: "\<forall>i \<in> set (issuesOfType UNUSED_ENDPOINT issues).
            i_severity i = severityOr overrideRules ''unusedEndpoint'' ''LOW''"
    by blast+
  have view: "map routeView E' = [(''GET /api/users'', None, 4), (''DELETE /api/users/:id'', None, 9)]
      \<and> map e_used (map snd E') = [True, False]"
    unfolding E' by (simp add: routeView_def sampleEndpoint_def)
  have ends: "map i_endpoint (issuesOfType UNUSED_ENDPOINT issues) = [Some ''DELETE /api/users/:id'']"
    unfolding eq E' by (simp add: sampleEndpoint_def unusedEndpointIssue_def newIssue_def)
  then obtain i where i: "issuesOfType UNUSED_ENDPOINT issues = [i]"
    by (cases "issuesOfType UNUSED_ENDPOINT issues") auto
  have "severityOr overrideRules ''unusedEndpoint'' ''LOW'' = ''HIGH''"
    by (simp add: severityOr_def overrideRules_def sampleRules_def)
  with sev i have "i_severity i = ''HIGH''" by simp
  with i ends view r made show ?thesis by simp
qed

section \<open>Required body fields (C8)\<close>







text \<open>
  The body check throws where the body of the call site, or the schema, has a property
  named \<^verbatim>\<open>hasOwnProperty\<close>; the run then ends without issues.
\<close>

lemma body_check_throws_on_hidden_method:
  "validateRequestBody signupEndpoint hiddenMethodCall sampleRules = Inl TypeError
   \<and> validate sampleRules [(''POST /api/signup'', signupEndpoint)]
        [(''POST /api/signup'', [hiddenMethodCall])] = Inl TypeError"
  by code_simp











section \<open>Duplicate route declarations (C4)\<close>

text \<open>
  C4, as the claim states it, fails in its second half: of two declarations with the same
  key only the later one is in the extractor's output. Here \<open>router.get('/users', listUsers)\<close>
  on line 3 and \<open>router.get('/users/', listAll)\<close> on line 9 of one file both normalize to
  \<open>GET /api/users\<close>; the endpoint map holds the record of line 9 alone and the \<open>routes\<close>
  list is empty.
\<close>

theorem earlier_declaration_is_overwritten:
  "map_sum id (map routeView)
     (analyzeRouteFile
        [(CallExpression (MemberExpression (Some ''router'') (Some ''get''))
            [StringLiteral ''/users'', Identifier ''listUsers''], 3),
         (CallExpression (MemberExpression (Some ''router'') (Some ''get''))
            [StringLiteral ''/users/'', Identifier ''listAll''], 9)]
        ''/api'' ''routes/users.js'' [])
     = Inr [(''GET /api/users'', Some ''listAll'', 9)]
   \<and> map_sum id routesOf
     (analyzeRouteFile
        [(CallExpression (MemberExpression (Some ''router'') (Some ''get''))
            [StringLiteral ''/users'', Identifier ''listUsers''], 3),
         (CallExpression (MemberExpression (Some ''router'') (Some ''get''))
            [StringLiteral ''/users/'', Identifier ''listAll''], 9)]
        ''/api'' ''routes/users.js'' [])
     = Inr []"
  by code_simp

lemma analyzeDeclarations_append:
  "analyzeDeclarations (xs @ ys) m =
     (case analyzeDeclarations xs m of
        Inl e \<Rightarrow> Inl e
      | Inr m' \<Rightarrow> analyzeDeclarations ys m')"
proof (induction xs arbitrary: m)
  case Nil
  show ?case by simp
next
  case (Cons x xs)
  obtain n line bp f where x: "x = (n, line, bp, f)" by (cases x)
  show ?case using Cons x by (simp split: sum.splits option.splits)
qed

lemma analyzeRouteFile_declarations:
  "analyzeRouteFile ast bp f m = analyzeDeclarations (map (\<lambda>(n, line). (n, line, bp, f)) ast) m"
proof (induction ast arbitrary: m)
  case Nil
  show ?case by simp
next
  case (Cons x ast)
  obtain n line where x: "x = (n, line)" by (cases x)
  show ?case using Cons x by (simp split: sum.splits option.splits)
qed

lemma analyzeRoutes_declarations:
  "analyzeRoutes files m = analyzeDeclarations (runDeclarations files) m"
proof (induction files arbitrary: m)
  case Nil
  show ?case by (simp add: runDeclarations_def)
next
  case (Cons fl files)
  have split: "runDeclarations (fl # files)
      = (case rf_ast fl of
           None \<Rightarrow> []
         | Some ast \<Rightarrow> map (\<lambda>(n, line). (n, line, rf_basePath fl, rf_relativePath fl)) ast)
        @ runDeclarations files"
    by (simp add: runDeclarations_def)
  show ?case
  proof (cases "rf_ast fl")
    case None
    with Cons split show ?thesis by simp
  next
    case (Some ast)
    with Cons split show ?thesis
      by (simp add: analyzeDeclarations_append analyzeRouteFile_declarations
          split: sum.splits)
  qed
qed

lemma mapSet_keys:
  "map fst (mapSet k v m) = (if k \<in> set (map fst m) then map fst m else map fst m @ [k])"
  by (induction m) auto

lemma distinct_mapSet: "distinct (map fst m) \<Longrightarrow> distinct (map fst (mapSet k v m))"
  by (simp add: mapSet_keys)

lemma analyzeDeclarations_distinct:
  "distinct (map fst m) \<Longrightarrow> analyzeDeclarations xs m = Inr m' \<Longrightarrow> distinct (map fst m')"
proof (induction xs arbitrary: m)
  case Nil
  then show ?case by simp
next
  case (Cons x xs)
  obtain n line bp f where x: "x = (n, line, bp, f)" by (cases x)
  show ?case
  proof (cases "extractEndpointFromCall n bp f line")
    case (Inl e)
    with Cons.prems x show ?thesis by simp
  next
    case (Inr r)
    show ?thesis
    proof (cases r)
      case None
      with Inr Cons x show ?thesis by simp
    next
      case (Some ep)
      with Inr Cons.prems x
      have "analyzeDeclarations xs (mapSet (callKey (e_method ep) (e_path ep)) ep m) = Inr m'"
        by simp
      with Cons.IH [OF distinct_mapSet [OF Cons.prems(1)]] show ?thesis by blast
    qed
  qed
qed

lemma analyzeDeclarations_untouched:
  "map_of m k = Some e \<Longrightarrow>
   \<forall>(n, line, bp, f) \<in> set xs. \<forall>e'. extractEndpointFromCall n bp f line = Inr (Some e')
      \<longrightarrow> routeKey e' \<noteq> k \<Longrightarrow>
   analyzeDeclarations xs m = Inr m' \<Longrightarrow> map_of m' k = Some e"
proof (induction xs arbitrary: m)
  case Nil
  then show ?case by simp
next
  case (Cons x xs)
  obtain n line bp f where x: "x = (n, line, bp, f)" by (cases x)
  from Cons.prems(2) have rest: "\<forall>(n, line, bp, f) \<in> set xs. \<forall>e'.
      extractEndpointFromCall n bp f line = Inr (Some e') \<longrightarrow> routeKey e' \<noteq> k"
    by simp
  show ?case
  proof (cases "extractEndpointFromCall n bp f line")
    case (Inl e)
    with Cons.prems x show ?thesis by simp
  next
    case (Inr r)
    show ?thesis
    proof (cases r)
      case None
      with Inr Cons.prems x Cons.IH [OF Cons.prems(1) rest] show ?thesis by simp
    next
      case (Some ep)
      with Inr Cons.prems(2) x have ne: "routeKey ep \<noteq> k" by simp
      let ?m = "mapSet (callKey (e_method ep) (e_path ep)) ep m"
      from ne Cons.prems(1) have "map_of ?m k = Some e"
        by (simp add: map_of_mapSet routeKey_def)
      moreover from Some Inr Cons.prems(3) x have "analyzeDeclarations xs ?m = Inr m'"
        by simp
      ultimately show ?thesis using Cons.IH [OF _ rest] by blast
    qed
  qed
qed

lemma distinct_single_entry:
  "distinct (map fst m) \<Longrightarrow> map_of m k = Some e \<Longrightarrow> filter (\<lambda>(k', e'). k' = k) m = [(k, e)]"
proof (induction m)
  case Nil
  then show ?case by simp
next
  case (Cons p m)
  obtain k0 e0 where p: "p = (k0, e0)" by (cases p)
  show ?case
  proof (cases "k0 = k")
    case True
    with Cons.prems p have "e0 = e" and "k \<notin> fst ` set m" by auto
    then have "filter (\<lambda>(k', e'). k' = k) m = []"
      by (force simp: filter_empty_conv)
    with True p \<open>e0 = e\<close> show ?thesis by simp
  next
    case False
    with Cons p show ?thesis by simp
  qed
qed

text \<open>
  C4, amended: when two route declarations of a run, in one file or in two, normalize to
  the same key, the later one observed wins as the identity-keyed endpoint and replaces
  the earlier one: after the run, the endpoint map holds under that key exactly one
  record, that of the last declaration with the key, and the \<open>routes\<close> list of the
  extractor's output is empty; the earlier record is retained nowhere. This holds from
  any endpoint map with one entry per key at the start, as the empty map of a run is.
\<close>

theorem later_declaration_replaces_earlier:
  assumes "analyzeRoutes files m0 = Inr m"
    and "distinct (map fst m0)"
    and "runDeclarations files
           = before @ [(n1, l1, bp1, f1)] @ between @ [(n2, l2, bp2, f2)] @ rest"
    and "extractEndpointFromCall n1 bp1 f1 l1 = Inr (Some e1)"
    and "extractEndpointFromCall n2 bp2 f2 l2 = Inr (Some e2)"
    and "routeKey e1 = routeKey e2"
    and "\<forall>(n, line, bp, f) \<in> set rest. \<forall>e'.
           extractEndpointFromCall n bp f line = Inr (Some e') \<longrightarrow> routeKey e' \<noteq> routeKey e2"
  shows "mapGet m (routeKey e2) = Some e2
         \<and> filter (\<lambda>(k, e). k = routeKey e1) m = [(routeKey e2, e2)]
         \<and> br_routes (backendResult m) = []"
proof -
  let ?pre = "before @ [(n1, l1, bp1, f1)] @ between"
  have split: "runDeclarations files = ?pre @ ((n2, l2, bp2, f2) # rest)"
    using assms(3) by simp
  from assms(1) have all: "analyzeDeclarations (?pre @ ((n2, l2, bp2, f2) # rest)) m0 = Inr m"
    by (simp only: analyzeRoutes_declarations split)
  then obtain ma where ma: "analyzeDeclarations ?pre m0 = Inr ma"
      and run: "analyzeDeclarations ((n2, l2, bp2, f2) # rest) ma = Inr m"
    unfolding analyzeDeclarations_append by (auto split: sum.splits)
  let ?mb = "mapSet (routeKey e2) e2 ma"
  from run assms(5) have rest: "analyzeDeclarations rest ?mb = Inr m"
    by (simp add: routeKey_def)
  have "map_of ?mb (routeKey e2) = Some e2" by (simp add: map_of_mapSet)
  from analyzeDeclarations_untouched [OF this assms(7) rest]
  have get: "map_of m (routeKey e2) = Some e2" .
  from analyzeDeclarations_distinct [OF assms(2) all] have "distinct (map fst m)" .
  from distinct_single_entry [OF this get] assms(6) get show ?thesis
    by (simp add: mapGet_def backendResult_def)
qed

theorem later_declaration_replaces_earlier_witness:
  "analyzeRoutes sampleRouteFiles []
     = Inr [(''GET /api/users'',
             declaredRoute ''GET'' ''/api/users'' ''/api/users/'' [] ''routes/index.js'' ''listAll'' 7),
            (''POST /api/users'',
             declaredRoute ''POST'' ''/api/users'' ''/users'' ''/api'' ''routes/users.js'' ''create'' 12)]
   \<and> extractEndpointFromCall (routeCall ''get'' ''/users'' ''listUsers'') ''/api'' ''routes/users.js'' 3
     = Inr (Some (declaredRoute ''GET'' ''/api/users'' ''/users'' ''/api'' ''routes/users.js''
                    ''listUsers'' 3))
   \<and> filter (\<lambda>(k, e). k = ''GET /api/users'')
         [(''GET /api/users'',
           declaredRoute ''GET'' ''/api/users'' ''/api/users/'' [] ''routes/index.js'' ''listAll'' 7),
          (''POST /api/users'',
           declaredRoute ''POST'' ''/api/users'' ''/users'' ''/api'' ''routes/users.js'' ''create'' 12)]
       = [(''GET /api/users'',
           declaredRoute ''GET'' ''/api/users'' ''/api/users/'' [] ''routes/index.js'' ''listAll'' 7)]"
proof -
  let ?n1 = "routeCall ''get'' ''/users'' ''listUsers''"
  let ?n2 = "routeCall ''get'' ''/api/users/'' ''listAll''"
  let ?n3 = "routeCall ''post'' ''/users'' ''create''"
  let ?e1 = "declaredRoute ''GET'' ''/api/users'' ''/users'' ''/api'' ''routes/users.js'' ''listUsers'' 3"
  let ?e2 = "declaredRoute ''GET'' ''/api/users'' ''/api/users/'' [] ''routes/index.js'' ''listAll'' 7"
  let ?e3 = "declaredRoute ''POST'' ''/api/users'' ''/users'' ''/api'' ''routes/users.js'' ''create'' 12"
  let ?m = "[(''GET /api/users'', ?e2), (''POST /api/users'', ?e3)]"
  have x1: "extractEndpointFromCall ?n1 ''/api'' ''routes/users.js'' 3 = Inr (Some ?e1)"
    by code_simp
  have x2: "extractEndpointFromCall ?n2 [] ''routes/index.js'' 7 = Inr (Some ?e2)"
    by code_simp
  have run: "analyzeRoutes sampleRouteFiles [] = Inr ?m"
    by code_simp
  have decls: "runDeclarations sampleRouteFiles
      = [] @ [(?n1, 3, ''/api'', ''routes/users.js'')]
           @ [(?n3, 12, ''/api'', ''routes/users.js'')]
           @ [(?n2, 7, [], ''routes/index.js'')] @ []"
    by (simp add: runDeclarations_def sampleRouteFiles_def)
  have start: "distinct (map fst ([] :: (string \<times> endpoint) list))" by simp
  have same: "routeKey ?e1 = routeKey ?e2"
    by (simp add: routeKey_def declaredRoute_def)
  have later: "\<forall>(n, line, bp, f) \<in> set []. \<forall>e'.
      extractEndpointFromCall n bp f line = Inr (Some e') \<longrightarrow> routeKey e' \<noteq> routeKey ?e2"
    by simp
  have key: "routeKey ?e2 = ''GET /api/users''"
    by (simp add: routeKey_def declaredRoute_def callKey_def)
  from later_declaration_replaces_earlier [OF run start decls x1 x2 same later]
  have "filter (\<lambda>(k, e). k = routeKey ?e1) ?m = [(routeKey ?e2, ?e2)]" by simp
  with same key run x1 show ?thesis by simp
qed
section \<open>Sensitive endpoints and the exemption list (C5)\<close>

text \<open>
  C5: the claim is that \<open>SENSITIVE_ENDPOINT_NO_AUTH\<close> is not emitted for an endpoint on the
  exemption list. The code evaluated at the endpoint \<open>POST /auth/login\<close> without auth
  middleware: \<^verbatim>\<open>isExemptFromAuth\<close> holds for its key, the sensitive-method check, which
  consults the exemption list, reports nothing, and \<^verbatim>\<open>validateAuthenticationRequirements\<close>,
  which does not consult it, emits \<open>SENSITIVE_ENDPOINT_NO_AUTH\<close> with severity \<open>CRITICAL\<close>.
\<close>

theorem exempt_login_is_reported_sensitive:
  "isExemptFromAuth ''POST /auth/login''
   \<and> validateSensitiveMethods sampleRules
        [(''POST /auth/login'', sampleEndpoint ''POST'' ''/auth/login'' 5)] = []
   \<and> map endpointIssueView
        (validateAuthenticationRequirements sampleRules
           [(''POST /auth/login'', sampleEndpoint ''POST'' ''/auth/login'' 5)])
     = [(SENSITIVE_ENDPOINT_NO_AUTH, ''CRITICAL'', Some ''POST /auth/login'')]"
  by code_simp

section \<open>Reading a corrupt cache entry (C6)\<close>

lemma get_unparsable:
  assumes "memoryCacheGet (cm_memoryCache cm) now (category @ '':'' @ key) = None"
    and "map_of (cm_files cm) (pathJoin (cm_cacheDir cm) category key) = Some file"
    and "\<not> now - cf_mtime file > cm_maxAge cm * 1000"
    and "jsonParse (cf_content file) = None"
  shows "get jsonParse now cm key category = (JNull, countMiss cm)"
  using assms by (simp add: get_def Let_def)

text \<open>
  C6: the claim is that a read which finds the file and cannot deserialize it returns a
  miss and deletes the file. The code evaluated at a cache with one truncated file, read
  one second after it was written: the read returns the miss, counts it, and leaves the
  file where it is; the sweep \<^verbatim>\<open>clearExpired\<close> on the same directory removes it.
\<close>

theorem corrupt_entry_survives_read:
  "sampleParse ''{\"da'' = None
   \<and> fst (get sampleParse 2000 sampleCache ''k1'' ''files'') = JNull
   \<and> cm_files (snd (get sampleParse 2000 sampleCache ''k1'' ''files''))
     = [(''.audit-cache/files/k1.json'', \<lparr> cf_mtime = 1000, cf_content = ''{\"da'' \<rparr>)]
   \<and> st_misses (cm_stats (snd (get sampleParse 2000 sampleCache ''k1'' ''files''))) = 1
   \<and> clearExpiredFiles sampleParse 2000 86400 (cm_files sampleCache) = []"
  by code_simp

section \<open>Unused design-system components and duplicate reports (C9)\<close>

text \<open>
  C9, as the claim states it, fails: with the design-system components \<open>Button\<close> and
  \<open>Card\<close> and the frontend component \<open>Panel\<close>, the run reports \<open>Panel\<close> as a duplicate of
  \<open>Card\<close> and reports \<open>Card\<close> as unused as well.
\<close>

theorem duplicate_twin_is_also_reported_unused:
  "map componentIssueView
     (validateComponents sampleRules (Some sampleDS) (Some sampleFrontend))
   = [(DUPLICATE_COMPONENT, Some ''Panel'', Some ''Card''),
      (UNUSED_DS_COMPONENT, Some ''Card'', None),
      (DUPLICATE_COMPONENT, Some ''Panel'', Some ''Card'')]"
  by code_simp

lemma keyedByName_markUsed: "keyedByName ds \<Longrightarrow> keyedByName (markUsed k file ds)"
proof (cases "map_of ds k")
  case None
  assume "keyedByName ds"
  with None show ?thesis by (simp add: markUsed_def)
next
  case (Some c)
  assume inv: "keyedByName ds"
  from Some have "(k, c) \<in> set ds" by (rule map_of_SomeD)
  with inv have n: "dc_name c = k" by (auto simp: keyedByName_def)
  let ?c = "c \<lparr> dc_used := True, dc_usedIn := dc_usedIn c @ [file] \<rparr>"
  have "set (mapSet k ?c ds) \<subseteq> insert (k, ?c) (set ds)" by (rule set_mapSet)
  with inv n have "keyedByName (mapSet k ?c ds)"
    unfolding keyedByName_def by fastforce
  with Some show ?thesis by (simp add: markUsed_def)
qed

lemma keyedByName_markSpecifiers:
  "keyedByName ds \<Longrightarrow> keyedByName (markSpecifiers specs fl ds)"
  by (induction specs fl ds rule: markSpecifiers.induct) (simp_all add: keyedByName_markUsed)

lemma keyedByName_markImport: "keyedByName ds \<Longrightarrow> keyedByName (markImport imp file ds)"
  by (simp add: markImport_def Let_def keyedByName_markSpecifiers keyedByName_markUsed
      split: option.splits)

lemma keyedByName_markImports: "keyedByName ds \<Longrightarrow> keyedByName (markImports imps file ds)"
  by (induction imps arbitrary: ds) (simp_all add: keyedByName_markImport)

lemma keyedByName_markAllImports: "keyedByName ds \<Longrightarrow> keyedByName (markAllImports fi ds)"
proof (induction fi arbitrary: ds)
  case Nil
  then show ?case by simp
next
  case (Cons p fi)
  obtain fl imps where p: "p = (fl, imps)" by (cases p)
  from Cons p show ?case by (simp add: keyedByName_markImports)
qed

lemma find_in_set: "find P xs = Some x \<Longrightarrow> x \<in> set xs"
  by (induction xs) (auto split: if_splits)

lemma duplicate_issue_source:
  assumes "i \<in> set (detectIncorrectUsage ds fe)"
  shows "i_type i = DUPLICATE_COMPONENT
         \<and> (\<exists>d \<in> set (map snd ds). \<not> dc_used d \<and> i_dsComponent i = Some (dc_name d))"
proof -
  from assms obtain component where
    i: "i \<in> set (case find (\<lambda>dsName. areComponentsSimilar (toLowerCase (fc_name component)) dsName)
                   (map (\<lambda>(name, c). toLowerCase name) ds) of
              None \<Rightarrow> []
            | Some similarDSComponent \<Rightarrow>
                (if similarDSComponent = [] then []
                 else
                   (case find (\<lambda>d. toLowerCase (dc_name d) = similarDSComponent) (map snd ds) of
                      None \<Rightarrow> []
                    | Some dsComponent \<Rightarrow>
                        (if \<not> dc_used dsComponent then [duplicateIssue component dsComponent]
                         else []))))"
    by (auto simp: detectIncorrectUsage_def Let_def)
  then obtain s d where d: "find (\<lambda>d. toLowerCase (dc_name d) = s) (map snd ds) = Some d"
      and u: "\<not> dc_used d" and eq: "i = duplicateIssue component d"
    by (auto split: option.splits if_splits)
  from d have "d \<in> set (map snd ds)"
    by (rule find_in_set)
  with u eq show ?thesis by (auto simp: duplicateIssue_def newIssue_def)
qed

lemma unused_issue_source:
  "set (findUnusedComponents rs ds)
     = (\<lambda>(name, c). unusedComponentIssue rs name c) ` {(name, c). (name, c) \<in> set ds \<and> \<not> dc_used c}"
  by (auto simp: findUnusedComponents_def)

lemma component_issue_types:
  "issuesOfType UNUSED_DS_COMPONENT (detectIncorrectUsage ds fe) = []
   \<and> issuesOfType UNUSED_DS_COMPONENT (validatePropsConsistency ds) = []
   \<and> issuesOfType UNUSED_DS_COMPONENT (findUnusedComponents rs ds) = findUnusedComponents rs ds"
proof -
  have a: "issuesOfType UNUSED_DS_COMPONENT (detectIncorrectUsage ds fe) = []"
    unfolding issuesOfType_def filter_empty_conv
    using duplicate_issue_source [of _ ds fe] by auto
  have b: "issuesOfType UNUSED_DS_COMPONENT (validatePropsConsistency ds) = []"
    unfolding issuesOfType_def filter_empty_conv
    by (auto simp: validatePropsConsistency_def validateBasicPropsUsage_def newIssue_def Let_def
        split: if_splits)
  have c: "issuesOfType UNUSED_DS_COMPONENT (findUnusedComponents rs ds) = findUnusedComponents rs ds"
    unfolding issuesOfType_def
    by (auto simp: findUnusedComponents_def unusedComponentIssue_def newIssue_def
        intro!: filter_True)
  from a b c show ?thesis by simp
qed
text \<open>
  C9, amended: a design-system component yields an \<open>UNUSED_DS_COMPONENT\<close> issue exactly when
  it is still unused after the import-marking pass: the issues of that type in a run are,
  in the order of the design-system map, one issue per entry of the marked map whose
  \<open>used\<close> flag is still false, and none for any other entry. Each names its component by the
  entry's key and has the severity the severity map gives for \<open>unusedComponent\<close> (\<open>LOW\<close> when
  it gives none). This is so whether or not a \<open>DUPLICATE_COMPONENT\<close> report names the
  component: in a map that files each component under its name, a component named in a
  duplicate report produces \<open>UNUSED_DS_COMPONENT\<close> in addition.
\<close>

theorem unused_ds_component_despite_duplicate_report:
  "issuesOfType UNUSED_DS_COMPONENT (validateComponents rs (Some ds) (Some fe))
     = map (\<lambda>(name, c). unusedComponentIssue rs name c)
         (filter (\<lambda>(name, c). \<not> dc_used c)
            (markAllImports (extractImportsFromFrontend fe []) ds))
   \<and> i_type (unusedComponentIssue rs name c) = UNUSED_DS_COMPONENT
   \<and> i_component (unusedComponentIssue rs name c) = Some name
   \<and> i_severity (unusedComponentIssue rs name c) = severityOr rs ''unusedComponent'' ''LOW''
   \<and> (keyedByName ds \<longrightarrow>
        (\<forall>i \<in> set (validateComponents rs (Some ds) (Some fe)).
           i_type i = DUPLICATE_COMPONENT \<longrightarrow>
           (\<exists>u \<in> set (validateComponents rs (Some ds) (Some fe)).
              i_type u = UNUSED_DS_COMPONENT \<and> i_component u = i_dsComponent i
              \<and> i_severity u = severityOr rs ''unusedComponent'' ''LOW'')))"
proof -
  define marked where "marked = markAllImports (extractImportsFromFrontend fe []) ds"
  have run: "validateComponents rs (Some ds) (Some fe)
               = detectIncorrectUsage marked fe @ findUnusedComponents rs marked
                 @ detectIncorrectUsage marked fe @ validatePropsConsistency marked"
    by (simp add: validateComponents_def validateComponentUsage_def marked_def Let_def)
  have "issuesOfType UNUSED_DS_COMPONENT (validateComponents rs (Some ds) (Some fe))
               = findUnusedComponents rs marked"
    unfolding run by (simp add: issuesOfType_append component_issue_types)
  then have one: "issuesOfType UNUSED_DS_COMPONENT (validateComponents rs (Some ds) (Some fe))
      = map (\<lambda>(name, c). unusedComponentIssue rs name c)
          (filter (\<lambda>(name, c). \<not> dc_used c)
             (markAllImports (extractImportsFromFrontend fe []) ds))"
    by (simp add: findUnusedComponents_def marked_def)
  have shape: "i_type (unusedComponentIssue rs name c) = UNUSED_DS_COMPONENT
      \<and> i_component (unusedComponentIssue rs name c) = Some name
      \<and> i_severity (unusedComponentIssue rs name c) = severityOr rs ''unusedComponent'' ''LOW''"
    by (simp add: unusedComponentIssue_def newIssue_def)
  have two: "\<exists>u \<in> set (validateComponents rs (Some ds) (Some fe)).
                 i_type u = UNUSED_DS_COMPONENT \<and> i_component u = i_dsComponent i
                 \<and> i_severity u = severityOr rs ''unusedComponent'' ''LOW''"
    if inv0: "keyedByName ds"
      and i: "i \<in> set (validateComponents rs (Some ds) (Some fe))"
      and t: "i_type i = DUPLICATE_COMPONENT" for i
  proof -
    have inv: "keyedByName marked"
      unfolding marked_def using inv0 by (rule keyedByName_markAllImports)
    have "i \<notin> set (findUnusedComponents rs marked)"
      using t by (auto simp: findUnusedComponents_def unusedComponentIssue_def newIssue_def)
    moreover have "i \<notin> set (validatePropsConsistency marked)"
      using t by (auto simp: validatePropsConsistency_def validateBasicPropsUsage_def
          newIssue_def Let_def split: if_splits)
    ultimately have "i \<in> set (detectIncorrectUsage marked fe)"
      using i unfolding run by auto
    from duplicate_issue_source [OF this]
    obtain d where d: "d \<in> set (map snd marked)" "\<not> dc_used d"
        "i_dsComponent i = Some (dc_name d)" by blast
    then obtain k where nd: "(k, d) \<in> set marked" by auto
    with inv have k: "dc_name d = k" by (auto simp: keyedByName_def)
    let ?u = "unusedComponentIssue rs k d"
    from nd d(2) have "?u \<in> set (findUnusedComponents rs marked)"
      unfolding unused_issue_source by blast
    then have "?u \<in> set (validateComponents rs (Some ds) (Some fe))"
      unfolding run by simp
    moreover have "i_type ?u = UNUSED_DS_COMPONENT \<and> i_component ?u = i_dsComponent i
        \<and> i_severity ?u = severityOr rs ''unusedComponent'' ''LOW''"
      using d(3) k by (simp add: unusedComponentIssue_def newIssue_def)
    ultimately show ?thesis by blast
  qed
  from one shape two show ?thesis by blast
qed

theorem unused_ds_component_witness:
  "keyedByName sampleDS
   \<and> map (\<lambda>(name, c). (name, dc_used c))
       (markAllImports (extractImportsFromFrontend sampleFrontend []) sampleDS)
     = [(''Button'', True), (''Card'', False)]
   \<and> map componentIssueView (issuesOfType UNUSED_DS_COMPONENT
        (validateComponents sampleRules (Some sampleDS) (Some sampleFrontend)))
     = [(UNUSED_DS_COMPONENT, Some ''Card'', None)]
   \<and> (\<exists>u \<in> set (validateComponents sampleRules (Some sampleDS) (Some sampleFrontend)).
         i_type u = UNUSED_DS_COMPONENT \<and> i_component u = Some ''Card''
         \<and> i_severity u = ''LOW'')"
proof -
  have k: "keyedByName sampleDS"
    by (simp add: keyedByName_def sampleDS_def)
  note main = unused_ds_component_despite_duplicate_report
    [where rs = sampleRules and ds = sampleDS and fe = sampleFrontend
       and name = "''Card''" and c = "snd (sampleDS ! 1)"]
  have "map componentIssueView
          (map (\<lambda>(name, c). unusedComponentIssue sampleRules name c)
             (filter (\<lambda>(name, c). \<not> dc_used c)
                (markAllImports (extractImportsFromFrontend sampleFrontend []) sampleDS)))
        = [(UNUSED_DS_COMPONENT, Some ''Card'', None)]"
    by code_simp
  with main have a: "map componentIssueView (issuesOfType UNUSED_DS_COMPONENT
        (validateComponents sampleRules (Some sampleDS) (Some sampleFrontend)))
      = [(UNUSED_DS_COMPONENT, Some ''Card'', None)]"
    by simp
  have b: "map (\<lambda>(name, c). (name, dc_used c))
             (markAllImports (extractImportsFromFrontend sampleFrontend []) sampleDS)
           = [(''Button'', True), (''Card'', False)]"
    by code_simp
  define run where "run = validateComponents sampleRules (Some sampleDS) (Some sampleFrontend)"
  have "map (\<lambda>i. (i_type i, i_dsComponent i)) run
          = [(DUPLICATE_COMPONENT, Some ''Card''), (UNUSED_DS_COMPONENT, None),
             (DUPLICATE_COMPONENT, Some ''Card'')]"
    unfolding run_def by code_simp
  then have ev: "run \<noteq> [] \<and> i_type (hd run) = DUPLICATE_COMPONENT
              \<and> i_dsComponent (hd run) = Some ''Card''"
    by (cases run) auto
  then have mem: "hd run \<in> set run" by simp
  have sev: "severityOr sampleRules ''unusedComponent'' ''LOW'' = ''LOW''"
    by (simp add: severityOr_def sampleRules_def)
  from main k have "\<forall>i \<in> set run. i_type i = DUPLICATE_COMPONENT \<longrightarrow>
      (\<exists>u \<in> set run. i_type u = UNUSED_DS_COMPONENT \<and> i_component u = i_dsComponent i
         \<and> i_severity u = severityOr sampleRules ''unusedComponent'' ''LOW'')"
    unfolding run_def by blast
  from bspec [OF this mem] ev sev
  have "\<exists>u \<in> set run. i_type u = UNUSED_DS_COMPONENT
      \<and> i_component u = Some ''Card'' \<and> i_severity u = ''LOW''"
    by simp
  then have c: "\<exists>u \<in> set (validateComponents sampleRules (Some sampleDS) (Some sampleFrontend)).
      i_type u = UNUSED_DS_COMPONENT \<and> i_component u = Some ''Card'' \<and> i_severity u = ''LOW''"
    unfolding run_def .
  from k b a c show ?thesis by simp
qed

end
